theory Spec2Isabelle
  imports Main "HOL-Library.AList" "HOL-Library.Word"
begin

section \<open>Shared vocabulary: strings, headers and protocol messages\<close>

text \<open>
  JavaScript objects used as string-keyed dictionaries (HTTP header sets) and the two
  \<open>Map\<close>s of the relay are association lists: \<open>map_of\<close> is the lookup,
  \<open>AList.update\<close> is \<open>Map.set\<close> / property assignment (an existing key keeps its
  position, a new key goes last) and \<open>AList.delete\<close> is \<open>Map.delete\<close>.
\<close>

type_synonym headers = "(string \<times> string) list"

text \<open>Decimal text of a non-negative integer, as a template literal renders it.\<close>

definition digit :: "nat \<Rightarrow> char" where
  "digit d = ''0123456789'' ! d"

fun show_nat :: "nat \<Rightarrow> string" where
  "show_nat n = (if n < 10 then [digit n] else show_nat (n div 10) @ [digit (n mod 10)])"

declare show_nat.simps [simp del]

text \<open>
  The wire protocol, one JSON object per message. \<open>client_msg\<close> travels from the client to
  the relay, \<open>relay_msg\<close> from the relay to the client. A field that the JSON object may
  lack is an \<open>option\<close>.
\<close>

datatype client_msg =
    Init "nat option"
  | Response string nat headers "string option"
  | Pong

datatype relay_msg =
    Ready string string
  | Request string string string headers "string option"
  | Ping

section \<open>The tunnel client\<close>

text \<open>
  The client keeps one counter, \<open>reconnectAttempts\<close>. Its effects are the messages it hands
  to \<open>ws.send\<close> and the delays with which it schedules \<open>connect\<close> again; both are logged
  in the state in the order they happen.
\<close>

record client =
  reconnectAttempts :: nat
  wsSent :: "client_msg list"
  scheduled :: "nat list"

definition MAX_RECONNECT_DELAY :: nat where
  "MAX_RECONNECT_DELAY = 30000"

definition client0 :: client where
  "client0 = \<lparr>reconnectAttempts = 0, wsSent = [], scheduled = []\<rparr>"

text \<open>
  \<open>reconnect\<close>: the delay is computed from the counter before the counter is
  incremented. JavaScript computes \<open>1000 * Math.pow(2, n)\<close> in floating point, where it
  is exact until it overflows to \<open>Infinity\<close>; the minimum with 30000 is the same as over
  the natural numbers.
\<close>

definition reconnect :: "client \<Rightarrow> client" where
  "reconnect c =
     (let delay = min (1000 * 2 ^ reconnectAttempts c) MAX_RECONNECT_DELAY
      in c\<lparr>reconnectAttempts := Suc (reconnectAttempts c),
           scheduled := scheduled c @ [delay]\<rparr>)"

text \<open>
  \<open>forwardToLocalhost\<close> builds the options of the local HTTP request and resolves with the
  local service's answer or rejects with its error. The local service is the external
  collaborator: a function from the request options and the body written to it (nothing is
  written when the body is absent or empty) to either an error message or a response.
\<close>

record options =
  opt_hostname :: string
  opt_port :: nat
  opt_path :: string
  opt_method :: string
  opt_headers :: headers

type_synonym local_response = "nat \<times> headers \<times> string"

type_synonym local_service = "options \<Rightarrow> string option \<Rightarrow> string + local_response"

definition forward_headers :: "nat \<Rightarrow> headers \<Rightarrow> headers" where
  "forward_headers localPort hs =
     AList.update ''x-forwarded-proto'' ''https''
       (AList.update ''host'' (''localhost:'' @ show_nat localPort) hs)"

definition forward_options :: "nat \<Rightarrow> string \<Rightarrow> string \<Rightarrow> headers \<Rightarrow> options" where
  "forward_options localPort meth pth hs =
     \<lparr>opt_hostname = ''localhost'', opt_port = localPort, opt_path = pth, opt_method = meth,
      opt_headers = forward_headers localPort hs\<rparr>"

definition forwardToLocalhost ::
  "local_service \<Rightarrow> nat \<Rightarrow> string \<Rightarrow> string \<Rightarrow> headers \<Rightarrow> string option
     \<Rightarrow> string + local_response" where
  "forwardToLocalhost svc localPort meth pth hs body =
     svc (forward_options localPort meth pth hs)
       (case body of None \<Rightarrow> None | Some b \<Rightarrow> if b = [] then None else Some b)"

text \<open>
  \<open>handleRequest\<close>: the \<open>try\<close> branch sends the forwarded response, the \<open>catch\<close> branch
  a 502 whose body names the error. The awaited promise is modelled by the value it settles
  with, \<open>Inr\<close> when it resolves and \<open>Inl\<close> when it rejects.
\<close>

definition ws_send :: "client_msg \<Rightarrow> client \<Rightarrow> client" where
  "ws_send m c = c\<lparr>wsSent := wsSent c @ [m]\<rparr>"

definition handleRequest ::
  "local_service \<Rightarrow> nat \<Rightarrow> string \<Rightarrow> string \<Rightarrow> string \<Rightarrow> headers \<Rightarrow> string option
     \<Rightarrow> client \<Rightarrow> client" where
  "handleRequest svc localPort rid meth pth hs body c =
     (case forwardToLocalhost svc localPort meth pth hs body of
        Inr (st, rhs, rbody) \<Rightarrow> ws_send (Response rid st rhs (Some rbody)) c
      | Inl err \<Rightarrow>
          ws_send (Response rid 502 [(''Content-Type'', ''text/plain'')]
                     (Some (''Tunnel Error: '' @ err))) c)"

text \<open>The events of the client's channel and the handler each one runs.\<close>

datatype client_event = WsOpen | WsMessage relay_msg | WsClose | WsError

fun client_step :: "local_service \<Rightarrow> nat \<Rightarrow> client_event \<Rightarrow> client \<Rightarrow> client" where
  "client_step svc localPort WsOpen c =
     ws_send (Init (Some localPort)) (c\<lparr>reconnectAttempts := 0\<rparr>)"
| "client_step svc localPort (WsMessage (Ready url sd)) c = c"
| "client_step svc localPort (WsMessage (Request rid meth pth hs body)) c =
     handleRequest svc localPort rid meth pth hs body c"
| "client_step svc localPort (WsMessage Ping) c = ws_send Pong c"
| "client_step svc localPort WsClose c = reconnect c"
| "client_step svc localPort WsError c = c"

definition client_run :: "local_service \<Rightarrow> nat \<Rightarrow> client_event list \<Rightarrow> client \<Rightarrow> client" where
  "client_run svc localPort evs c = foldl (\<lambda>s e. client_step svc localPort e s) c evs"

section \<open>The relay server\<close>

subsection \<open>State\<close>

text \<open>
  What the relay takes from its environment. \<open>BASE_DOMAIN\<close> and \<open>HTTP_PORT\<close> are read
  from \<open>process.env\<close>; \<open>HTTP_PORT\<close> is kept as the text that the template literal of the
  tunnel URL renders. \<open>accepts\<close> stands for the HTTP library: \<open>accepts status headers body\<close>
  holds when \<open>res.writeHead(status, headers); res.end(body)\<close> returns, and fails when one
  of the two calls throws, in which case nothing is sent to the caller. The handlers are
  verified for every such function.
\<close>

record config =
  BASE_DOMAIN :: string
  HTTP_PORT :: string
  accepts :: "nat \<Rightarrow> headers \<Rightarrow> string option \<Rightarrow> bool"

text \<open>
  The checks Node makes: a status code from 100 to 999, header names that are HTTP tokens,
  header values without control characters other than the tab. A body that is a string or
  absent is always taken.
\<close>

definition token_char :: "char \<Rightarrow> bool" where
  "token_char c =
     (c \<in> set ''abcdefghijklmnopqrstuvwxyzABCDEFGHIJKLMNOPQRSTUVWXYZ0123456789'' \<or>
      c \<in> set ''!#$%&*+-.^_|~'' \<or> c = CHR 0x27 \<or> c = CHR 0x60)"

definition valid_header_name :: "string \<Rightarrow> bool" where
  "valid_header_name k = (k \<noteq> [] \<and> list_all token_char k)"

definition valid_header_value :: "string \<Rightarrow> bool" where
  "valid_header_value v =
     list_all (\<lambda>c. of_char c = (9::nat) \<or> (32 \<le> (of_char c :: nat) \<and> (of_char c :: nat) \<noteq> 127)) v"

definition node_accepts :: "nat \<Rightarrow> headers \<Rightarrow> string option \<Rightarrow> bool" where
  "node_accepts st hs body =
     (100 \<le> st \<and> st \<le> 999 \<and>
      list_all (\<lambda>h. valid_header_name (fst h) \<and> valid_header_value (snd h)) hs)"

definition default_config :: config where
  "default_config =
     \<lparr>BASE_DOMAIN = ''tunnel.localhost'', HTTP_PORT = ''8081'', accepts = node_accepts\<rparr>"

definition REQUEST_TIMEOUT :: nat where
  "REQUEST_TIMEOUT = 30000"

datatype readyState = CONNECTING | OPEN | CLOSING | CLOSED

text \<open>
  One \<open>session\<close> per accepted WebSocket: the socket's \<open>readyState\<close> and remote address,
  and the two variables of the connection handler's closure, \<open>subdomain\<close> and
  \<open>pingInterval\<close> (both \<open>null\<close> at first).
\<close>

record session =
  readyState :: readyState
  remoteAddress :: string
  subdomain :: "string option"
  pingInterval :: "nat option"

record tunnel =
  tunnel_ws :: nat
  tunnel_localPort :: nat

record pending =
  res :: nat
  timer :: nat

text \<open>What a public caller is sent: the arguments of \<open>writeHead\<close> and of \<open>end\<close>.\<close>

datatype reply = Reply nat headers "string option"

record request =
  req_method :: string
  req_url :: string
  req_headers :: headers

text \<open>
  A public request whose body is still arriving: the variables that the \<open>data\<close> and
  \<open>end\<close> listeners of \<open>forwardRequest\<close> close over.
\<close>

record receiving_req =
  rc_ws :: nat
  rc_requestId :: string
  rc_req :: request
  rc_body :: string

text \<open>An armed \<open>setTimeout\<close>: its delay and the variables its callback closes over.\<close>

record armed =
  t_delay :: nat
  t_requestId :: string
  t_res :: nat

text \<open>
  The relay's state. \<open>tunnels\<close> and \<open>pendingResponses\<close> are the two global \<open>Map\<close>s.
  Sockets, response objects and timers are handles (natural numbers) handed out by the
  counters \<open>next_ws\<close>, \<open>next_res\<close> and \<open>next_timer\<close>. The effects are logs: \<open>written\<close>
  holds every response written to a public caller, \<open>wsSends\<close> every call of \<open>ws.send\<close>,
  each in the order it happened.
\<close>

record relay =
  tunnels :: "(string \<times> tunnel) list"
  pendingResponses :: "(string \<times> pending) list"
  sessions :: "(nat \<times> session) list"
  timeouts :: "(nat \<times> armed) list"
  intervals :: "(nat \<times> nat) list"
  receiving :: "(nat \<times> receiving_req) list"
  written :: "(nat \<times> reply) list"
  wsSends :: "(nat \<times> relay_msg) list"
  next_ws :: nat
  next_res :: nat
  next_timer :: nat

definition relay0 :: relay where
  "relay0 = \<lparr>tunnels = [], pendingResponses = [], sessions = [], timeouts = [],
     intervals = [], receiving = [], written = [], wsSends = [],
     next_ws = 0, next_res = 0, next_timer = 0\<rparr>"

subsection \<open>Primitive effects\<close>

text \<open>\<open>res.writeHead(status, headers); res.end(body)\<close> on the response object \<open>r\<close>.\<close>

definition res_write :: "nat \<Rightarrow> reply \<Rightarrow> relay \<Rightarrow> relay" where
  "res_write r rep s = s\<lparr>written := written s @ [(r, rep)]\<rparr>"

definition headersSent :: "nat \<Rightarrow> relay \<Rightarrow> bool" where
  "headersSent r s = (r \<in> set (map fst (written s)))"

text \<open>The replies a public caller has been sent, oldest first.\<close>

definition replies :: "relay \<Rightarrow> nat \<Rightarrow> reply list" where
  "replies s r = map snd (filter (\<lambda>e. fst e = r) (written s))"

definition relay_send :: "nat \<Rightarrow> relay_msg \<Rightarrow> relay \<Rightarrow> relay" where
  "relay_send w m s = s\<lparr>wsSends := wsSends s @ [(w, m)]\<rparr>"

definition ready_of :: "relay \<Rightarrow> nat \<Rightarrow> readyState" where
  "ready_of s w = (case map_of (sessions s) w of None \<Rightarrow> CLOSED | Some x \<Rightarrow> readyState x)"

text \<open>\<open>ws.close()\<close> starts the closing handshake of an open socket.\<close>

definition ws_close :: "nat \<Rightarrow> relay \<Rightarrow> relay" where
  "ws_close w s =
     s\<lparr>sessions := AList.map_entry w
          (\<lambda>x. if readyState x = OPEN then x\<lparr>readyState := CLOSING\<rparr> else x) (sessions s)\<rparr>"

subsection \<open>Identifier generation\<close>

text \<open>
  \<open>generateSubdomain\<close> is \<open>crypto.randomBytes(6).toString('hex')\<close>; its argument is the
  buffer that \<open>randomBytes\<close> returned.
\<close>

definition hex_digit :: "nat \<Rightarrow> char" where
  "hex_digit d = ''0123456789abcdef'' ! d"

definition hex_byte :: "8 word \<Rightarrow> string" where
  "hex_byte b = [hex_digit (unat b div 16), hex_digit (unat b mod 16)]"

definition generateSubdomain :: "8 word list \<Rightarrow> string" where
  "generateSubdomain bytes = concat (map hex_byte bytes)"

subsection \<open>The WebSocket handlers\<close>

definition handleInit :: "config \<Rightarrow> nat \<Rightarrow> nat option \<Rightarrow> 8 word list \<Rightarrow> relay \<Rightarrow> relay" where
  "handleInit cfg w lp bytes s =
     (let sd = generateSubdomain bytes;
          url = ''http://'' @ sd @ ''.'' @ BASE_DOMAIN cfg @ '':'' @ HTTP_PORT cfg;
          s1 = s\<lparr>sessions := AList.map_entry w (\<lambda>x. x\<lparr>subdomain := Some sd\<rparr>) (sessions s)\<rparr>;
          s2 = s1\<lparr>tunnels := AList.update sd
                 \<lparr>tunnel_ws = w,
                  tunnel_localPort =
                    (case lp of None \<Rightarrow> 3000 | Some p \<Rightarrow> if p = 0 then 3000 else p)\<rparr>
                 (tunnels s1)\<rparr>;
          s3 = relay_send w (Ready url sd) s2;
          i = next_timer s3
      in s3\<lparr>intervals := intervals s3 @ [(i, w)],
            next_timer := Suc i,
            sessions := AList.map_entry w (\<lambda>x. x\<lparr>pingInterval := Some i\<rparr>) (sessions s3)\<rparr>)"

text \<open>
  A handler called inside the \<open>try\<close> of the \<open>message\<close> listener either returns or
  throws; either way it leaves the state it has reached.
\<close>

datatype outcome = Returned relay | Threw relay

text \<open>
  \<open>handleResponse\<close>: the timer is cleared and the entry deleted before the reply is
  written, with the status and headers as the message gave them. When the library refuses
  them, the exception leaves the handler with the entry gone, the timer cleared and nothing
  written.
\<close>

definition handleResponse ::
  "config \<Rightarrow> string \<Rightarrow> nat \<Rightarrow> headers \<Rightarrow> string option \<Rightarrow> relay \<Rightarrow> outcome" where
  "handleResponse cfg rid st hs body s =
     (case map_of (pendingResponses s) rid of
        None \<Rightarrow> Returned s
      | Some p \<Rightarrow>
          (let s1 = s\<lparr>timeouts := AList.delete (timer p) (timeouts s),
                      pendingResponses := AList.delete rid (pendingResponses s)\<rparr>
           in if accepts cfg st hs body
              then Returned (res_write (res p) (Reply st hs body) s1)
              else Threw s1))"

text \<open>
  The decoded frame of a \<open>message\<close> event. \<open>Unparseable\<close> is data on which
  \<open>JSON.parse\<close> (or reading \<open>msg.type\<close> of a parsed \<open>null\<close>) throws; \<open>Unknown\<close> is a
  parsed value whose \<open>type\<close> is none of the three cases of the \<open>switch\<close>. The
  \<open>catch\<close> block, which calls \<open>ws.close()\<close>, runs when parsing throws and when
  \<open>handleResponse\<close> throws.
\<close>

datatype frame = Unparseable | Parsed client_msg | Unknown

fun onMessage :: "config \<Rightarrow> nat \<Rightarrow> frame \<Rightarrow> 8 word list \<Rightarrow> relay \<Rightarrow> relay" where
  "onMessage cfg w Unparseable bytes s = ws_close w s"
| "onMessage cfg w (Parsed (Init lp)) bytes s = handleInit cfg w lp bytes s"
| "onMessage cfg w (Parsed (Response rid st hs body)) bytes s =
     (case handleResponse cfg rid st hs body s of
        Returned s' \<Rightarrow> s'
      | Threw s' \<Rightarrow> ws_close w s')"
| "onMessage cfg w (Parsed Pong) bytes s = s"
| "onMessage cfg w Unknown bytes s = s"

text \<open>\<open>reqId.startsWith(subdomain)\<close>.\<close>

definition startsWith :: "string \<Rightarrow> string \<Rightarrow> bool" where
  "startsWith str pre = (take (length pre) str = pre)"

text \<open>
  The loop of the \<open>close\<close> handler over \<open>pendingResponses.entries()\<close>: an entry whose key
  starts with the subdomain is answered 502 and deleted.
\<close>

fun failPending :: "string \<Rightarrow> (string \<times> pending) list \<Rightarrow> relay \<Rightarrow> relay" where
  "failPending sd [] s = s"
| "failPending sd ((reqId, p) # rest) s =
     failPending sd rest
       (if startsWith reqId sd
        then (res_write (res p) (Reply 502 [(''Content-Type'', ''text/plain'')]
                (Some ''Tunnel disconnected'')) s)
               \<lparr>pendingResponses := AList.delete reqId (pendingResponses s)\<rparr>
        else s)"

definition onClose :: "nat \<Rightarrow> relay \<Rightarrow> relay" where
  "onClose w s =
     (case map_of (sessions s) w of
        None \<Rightarrow> s
      | Some x \<Rightarrow>
          (let s0 = s\<lparr>sessions := AList.map_entry w (\<lambda>y. y\<lparr>readyState := CLOSED\<rparr>) (sessions s)\<rparr>;
               s1 = (case subdomain x of
                       None \<Rightarrow> s0
                     | Some sd \<Rightarrow>
                         if sd = [] then s0
                         else failPending sd (pendingResponses s0)
                                (s0\<lparr>tunnels := AList.delete sd (tunnels s0)\<rparr>))
           in (case pingInterval x of
                 None \<Rightarrow> s1
               | Some i \<Rightarrow> s1\<lparr>intervals := AList.delete i (intervals s1)\<rparr>)))"

text \<open>The keepalive callback armed by \<open>handleInit\<close>.\<close>

definition onPingTimer :: "nat \<Rightarrow> relay \<Rightarrow> relay" where
  "onPingTimer i s =
     (case map_of (intervals s) i of
        None \<Rightarrow> s
      | Some w \<Rightarrow> if ready_of s w = OPEN then relay_send w Ping s else s)"

subsection \<open>The public HTTP handlers\<close>

definition quoted :: "string \<Rightarrow> string" where
  "quoted str = [CHR 0x22] @ str @ [CHR 0x22]"

text \<open>\<open>JSON.stringify\<close> of the health object.\<close>

definition health_body :: "nat \<Rightarrow> nat \<Rightarrow> string" where
  "health_body n m =
     ''{'' @ quoted ''status'' @ '':'' @ quoted ''ok'' @ '','' @
     quoted ''active_tunnels'' @ '':'' @ show_nat n @ '','' @
     quoted ''pending_requests'' @ '':'' @ show_nat m @ ''}''"

definition not_found_body :: "string \<Rightarrow> nat \<Rightarrow> string" where
  "not_found_body sd n =
     ''Tunnel not found: '' @ sd @ [CHR 0x0A, CHR 0x0A] @ ''Active tunnels: '' @ show_nat n"

text \<open>\<open>req.headers.host || ''\<close> and \<open>host.split('.')[0].split(':')[0]\<close>.\<close>

definition host_of :: "request \<Rightarrow> string" where
  "host_of req = (case map_of (req_headers req) ''host'' of None \<Rightarrow> [] | Some h \<Rightarrow> h)"

definition extract_subdomain :: "string \<Rightarrow> string" where
  "extract_subdomain host =
     takeWhile (\<lambda>c. c \<noteq> CHR '':'') (takeWhile (\<lambda>c. c \<noteq> CHR ''.'') host)"

text \<open>
  \<open>forwardRequest\<close> up to the registration of the \<open>data\<close> and \<open>end\<close> listeners.
  \<open>now\<close> is the value of \<open>Date.now()\<close> and \<open>rnd\<close> the text of \<open>Math.random()\<close>.
\<close>

definition forwardRequest :: "tunnel \<Rightarrow> request \<Rightarrow> nat \<Rightarrow> nat \<Rightarrow> string \<Rightarrow> relay \<Rightarrow> relay" where
  "forwardRequest tn req r now rnd s =
     (if ready_of s (tunnel_ws tn) \<noteq> OPEN
      then res_write r (Reply 503 [(''Content-Type'', ''text/plain'')]
             (Some ''Tunnel unavailable'')) s
      else
        (let requestId =
               (case map_of (sessions s) (tunnel_ws tn) of
                  None \<Rightarrow> [] | Some x \<Rightarrow> remoteAddress x)
               @ ''-'' @ show_nat now @ ''-'' @ rnd
         in s\<lparr>receiving := receiving s @
                 [(r, \<lparr>rc_ws = tunnel_ws tn, rc_requestId = requestId, rc_req = req,
                       rc_body = []\<rparr>)]\<rparr>))"

text \<open>The request listener of the HTTP server; the response object is a fresh handle.\<close>

definition httpServer :: "request \<Rightarrow> nat \<Rightarrow> string \<Rightarrow> relay \<Rightarrow> relay" where
  "httpServer req now rnd s =
     (let r = next_res s;
          s' = s\<lparr>next_res := Suc r\<rparr>;
          sd = extract_subdomain (host_of req)
      in if req_url req = ''/_health''
         then res_write r (Reply 200 [(''Content-Type'', ''application/json'')]
                (Some (health_body (length (tunnels s')) (length (pendingResponses s'))))) s'
         else
           (case map_of (tunnels s') sd of
              None \<Rightarrow>
                res_write r (Reply 404 [(''Content-Type'', ''text/plain'')]
                  (Some (not_found_body sd (length (tunnels s'))))) s'
            | Some tn \<Rightarrow> forwardRequest tn req r now rnd s'))"

text \<open>The \<open>data\<close> listener: \<open>body += chunk.toString()\<close>.\<close>

definition onData :: "nat \<Rightarrow> string \<Rightarrow> relay \<Rightarrow> relay" where
  "onData r chunk s =
     s\<lparr>receiving := AList.map_entry r (\<lambda>q. q\<lparr>rc_body := rc_body q @ chunk\<rparr>) (receiving s)\<rparr>"

text \<open>
  The \<open>end\<close> listener: send the \<open>request\<close> message, arm the timeout, store the pending
  entry.
\<close>

definition onEnd :: "nat \<Rightarrow> relay \<Rightarrow> relay" where
  "onEnd r s =
     (case map_of (receiving s) r of
        None \<Rightarrow> s
      | Some q \<Rightarrow>
          (let s1 = relay_send (rc_ws q)
                      (Request (rc_requestId q) (req_method (rc_req q)) (req_url (rc_req q))
                         (req_headers (rc_req q))
                         (if rc_body q = [] then None else Some (rc_body q))) s;
               t = next_timer s1
           in s1\<lparr>timeouts := timeouts s1 @
                    [(t, \<lparr>t_delay = REQUEST_TIMEOUT, t_requestId = rc_requestId q, t_res = r\<rparr>)],
                 next_timer := Suc t,
                 pendingResponses :=
                   AList.update (rc_requestId q) \<lparr>res = r, timer = t\<rparr> (pendingResponses s1),
                 receiving := AList.delete r (receiving s1)\<rparr>))"

text \<open>The callback of the timeout armed by the \<open>end\<close> listener.\<close>

definition onTimeout :: "nat \<Rightarrow> relay \<Rightarrow> relay" where
  "onTimeout t s =
     (case map_of (timeouts s) t of
        None \<Rightarrow> s
      | Some a \<Rightarrow>
          (let s1 = s\<lparr>timeouts := AList.delete t (timeouts s),
                      pendingResponses := AList.delete (t_requestId a) (pendingResponses s)\<rparr>
           in if \<not> headersSent (t_res a) s1
              then res_write (t_res a) (Reply 504 [(''Content-Type'', ''text/plain'')]
                     (Some ''Gateway Timeout'')) s1
              else s1))"

subsection \<open>Events\<close>

text \<open>
  The relay runs one handler at a time, to completion, on a single event loop. An event
  carries what the environment decides: the remote address of a new connection, the decoded
  frame of a message and the buffer \<open>crypto.randomBytes(6)\<close> would return, the clock and
  the random number of a public request. \<open>message\<close> and \<open>close\<close> events reach only a
  socket that has not been closed yet.
\<close>

datatype event =
    Connection string
  | Message nat frame "8 word list"
  | Close nat
  | PingTimer nat
  | HttpRequest request nat string
  | HttpData nat string
  | HttpEnd nat
  | Timeout nat

definition onConnection :: "string \<Rightarrow> relay \<Rightarrow> relay" where
  "onConnection addr s =
     s\<lparr>sessions := sessions s @
          [(next_ws s, \<lparr>readyState = OPEN, remoteAddress = addr, subdomain = None,
                        pingInterval = None\<rparr>)],
       next_ws := Suc (next_ws s)\<rparr>"

fun relay_step :: "config \<Rightarrow> event \<Rightarrow> relay \<Rightarrow> relay" where
  "relay_step cfg (Connection addr) s = onConnection addr s"
| "relay_step cfg (Message w f bytes) s =
     (if ready_of s w = CLOSED then s else onMessage cfg w f bytes s)"
| "relay_step cfg (Close w) s = (if ready_of s w = CLOSED then s else onClose w s)"
| "relay_step cfg (PingTimer i) s = onPingTimer i s"
| "relay_step cfg (HttpRequest req now rnd) s = httpServer req now rnd s"
| "relay_step cfg (HttpData r chunk) s = onData r chunk s"
| "relay_step cfg (HttpEnd r) s = onEnd r s"
| "relay_step cfg (Timeout t) s = onTimeout t s"

definition relay_run :: "config \<Rightarrow> event list \<Rightarrow> relay \<Rightarrow> relay" where
  "relay_run cfg evs s = foldl (\<lambda>x e. relay_step cfg e x) s evs"

text \<open>
  \<open>crypto.randomBytes(6)\<close> returns six bytes; only \<open>handleInit\<close> draws them, so only
  an \<open>init\<close> message constrains the buffer of its event.
\<close>

fun wf_event :: "event \<Rightarrow> bool" where
  "wf_event (Message w (Parsed (Init lp)) bytes) = (length bytes = 6)"
| "wf_event e = True"

inductive reachable :: "config \<Rightarrow> relay \<Rightarrow> bool" for cfg :: config where
  reachable_init: "reachable cfg relay0"
| reachable_step: "reachable cfg s \<Longrightarrow> wf_event e \<Longrightarrow> reachable cfg (relay_step cfg e s)"

subsection \<open>The invariant of the relay's state\<close>

text \<open>
  What every state the relay can reach satisfies. Tunnel identifiers are pairwise different
  twelve-character keys. The keys of the pending table, the armed timeouts, the requests
  still being received and the log of written responses are each pairwise different, so a
  response object is written at most once. Handles in use lie below the counters. A pending
  entry's timeout is armed and carries the entry's key and response object, and its
  response object is neither written nor still receiving. A request still being received
  is neither written nor the target of a timeout. Different timeouts have different
  response objects.
\<close>

definition inv_tunnels :: "relay \<Rightarrow> bool" where
  "inv_tunnels s =
     (distinct (map fst (tunnels s)) \<and> (\<forall>e\<in>set (tunnels s). length (fst e) = 12))"

definition inv_keys :: "relay \<Rightarrow> bool" where
  "inv_keys s =
     (distinct (map fst (pendingResponses s)) \<and> distinct (map fst (timeouts s)) \<and>
      distinct (map fst (receiving s)) \<and> distinct (map fst (written s)))"

definition inv_bounds :: "relay \<Rightarrow> bool" where
  "inv_bounds s =
     ((\<forall>a\<in>set (timeouts s). fst a < next_timer s \<and> t_res (snd a) < next_res s) \<and>
      (\<forall>q\<in>set (receiving s). fst q < next_res s) \<and>
      (\<forall>w\<in>set (written s). fst w < next_res s))"

definition inv_pending :: "relay \<Rightarrow> bool" where
  "inv_pending s =
     (\<forall>e\<in>set (pendingResponses s).
        (timer (snd e),
         \<lparr>t_delay = REQUEST_TIMEOUT, t_requestId = fst e, t_res = res (snd e)\<rparr>)
          \<in> set (timeouts s) \<and>
        (\<forall>w\<in>set (written s). fst w \<noteq> res (snd e)) \<and>
        (\<forall>q\<in>set (receiving s). fst q \<noteq> res (snd e)))"

definition inv_receiving :: "relay \<Rightarrow> bool" where
  "inv_receiving s =
     (\<forall>q\<in>set (receiving s).
        (\<forall>w\<in>set (written s). fst w \<noteq> fst q) \<and>
        (\<forall>a\<in>set (timeouts s). t_res (snd a) \<noteq> fst q))"

definition inv_timers :: "relay \<Rightarrow> bool" where
  "inv_timers s =
     (\<forall>a\<in>set (timeouts s). \<forall>a'\<in>set (timeouts s).
        t_res (snd a) = t_res (snd a') \<longrightarrow> a = a')"

definition relay_inv :: "relay \<Rightarrow> bool" where
  "relay_inv s =
     (inv_tunnels s \<and> inv_keys s \<and> inv_bounds s \<and> inv_pending s \<and> inv_receiving s \<and>
      inv_timers s)"

text \<open>
  A response object that has been handed out and that nothing in the state refers to: it has
  no reply, no pending entry, no timeout and no request still arriving.
\<close>

definition abandoned :: "nat \<Rightarrow> relay \<Rightarrow> bool" where
  "abandoned r s =
     (r < next_res s \<and>
      (\<forall>w\<in>set (written s). fst w \<noteq> r) \<and>
      (\<forall>e\<in>set (pendingResponses s). res (snd e) \<noteq> r) \<and>
      (\<forall>a\<in>set (timeouts s). t_res (snd a) \<noteq> r) \<and>
      (\<forall>q\<in>set (receiving s). fst q \<noteq> r))"

section \<open>Properties of the client\<close>

lemma show_nat_3000: "show_nat 3000 = ''3000''"
  by (simp add: show_nat.simps digit_def)

lemma client_run_snoc:
  "client_run svc lp (evs @ [e]) c = client_step svc lp e (client_run svc lp evs c)"
  by (simp add: client_run_def)

text \<open>The state after \<open>n\<close> \<open>close\<close> events in a row, from any state.\<close>

lemma client_run_closes:
  "client_run svc lp (replicate n WsClose) c =
     c\<lparr>reconnectAttempts := reconnectAttempts c + n,
       scheduled := scheduled c @
         map (\<lambda>k. min (1000 * 2 ^ (reconnectAttempts c + k)) MAX_RECONNECT_DELAY) [0..<n]\<rparr>"
proof (induction n)
  case 0
  show ?case by (simp add: client_run_def)
next
  case (Suc n)
  have "replicate (Suc n) WsClose = replicate n WsClose @ [WsClose]"
    by (simp add: replicate_append_same)
  then have "client_run svc lp (replicate (Suc n) WsClose) c =
      reconnect (client_run svc lp (replicate n WsClose) c)"
    by (simp only: client_run_snoc client_step.simps)
  also have "\<dots> = c\<lparr>reconnectAttempts := reconnectAttempts c + Suc n,
       scheduled := scheduled c @
         map (\<lambda>k. min (1000 * 2 ^ (reconnectAttempts c + k)) MAX_RECONNECT_DELAY) [0..<Suc n]\<rparr>"
    by (simp add: Suc.IH reconnect_def)
  finally show ?case .
qed

lemma shift_upt: "map (\<lambda>k. f (k - 1)) [1..<Suc n] = map f [0..<n]"
  by (induction n) simp_all

text \<open>
  C5, as the code has it. Every \<open>close\<close> event increments \<open>reconnectAttempts\<close>; after
  \<open>N\<close> \<open>close\<close> events in a row, counted from zero, the delays scheduled are
  \<open>min(1000 * 2^(k-1), 30000)\<close> milliseconds for \<open>k = 1, ..., N\<close>. The counter is set to
  zero by the \<open>open\<close> event of the channel, which is when \<open>init\<close> is sent; no message from
  the relay (\<open>ready\<close> included) and no \<open>error\<close> event changes it.
\<close>

theorem reconnect_backoff:
  "reconnectAttempts (client_step svc lp WsOpen c) = 0 \<and>
   (\<forall>m. reconnectAttempts (client_step svc lp (WsMessage m) c) = reconnectAttempts c) \<and>
   reconnectAttempts (client_step svc lp WsError c) = reconnectAttempts c \<and>
   reconnectAttempts (client_step svc lp WsClose c) = Suc (reconnectAttempts c) \<and>
   (reconnectAttempts c = 0 \<longrightarrow>
      reconnectAttempts (client_run svc lp (replicate N WsClose) c) = N \<and>
      scheduled (client_run svc lp (replicate N WsClose) c) =
        scheduled c @ map (\<lambda>k. min (1000 * 2 ^ (k - 1)) 30000) [1..<Suc N])"
proof -
  have msg: "reconnectAttempts (client_step svc lp (WsMessage m) c) = reconnectAttempts c" for m
    by (cases m) (simp_all add: ws_send_def handleRequest_def split: sum.splits prod.splits)
  have closes: "reconnectAttempts c = 0 \<Longrightarrow>
      scheduled (client_run svc lp (replicate N WsClose) c) =
        scheduled c @ map (\<lambda>k. min (1000 * 2 ^ (k - 1)) 30000) [1..<Suc N]"
    using shift_upt [of "\<lambda>k. min (1000 * 2 ^ k) (30000::nat)" N]
    by (simp add: client_run_closes MAX_RECONNECT_DELAY_def del: upt_Suc)
  show ?thesis
    using msg closes
    by (simp add: ws_send_def reconnect_def client_run_closes)
qed

text \<open>Six failed connections in a row: the delays double from one second and stop at thirty.\<close>

theorem reconnect_backoff_witness:
  "scheduled (client_run (\<lambda>opts body. Inl ''ECONNREFUSED'') 3000 (replicate 6 WsClose) client0) =
     [1000, 2000, 4000, 8000, 16000, 30000] \<and>
   reconnectAttempts (client_run (\<lambda>opts body. Inl ''ECONNREFUSED'') 3000 (replicate 6 WsClose) client0) = 6"
  using reconnect_backoff [of "\<lambda>opts body. Inl ''ECONNREFUSED''" 3000 client0 6]
  by (simp add: client0_def upt_rec)

text \<open>
  C5 as stated says that the counter is reset only when \<open>ready\<close> is received, not before.
  After three failures the counter is 3; the \<open>open\<close> event alone brings it to 0, when
  the client has only sent \<open>init\<close>, while receiving \<open>ready\<close> leaves a counter of 3 at 3.
\<close>

theorem reset_on_open_counterexample:
  "reconnectAttempts
     (client_run (\<lambda>opts body. Inl ''ECONNREFUSED'') 3000 [WsClose, WsClose, WsClose] client0) = 3 \<and>
   reconnectAttempts
     (client_run (\<lambda>opts body. Inl ''ECONNREFUSED'') 3000
        [WsClose, WsClose, WsClose, WsOpen] client0) = 0 \<and>
   wsSent
     (client_run (\<lambda>opts body. Inl ''ECONNREFUSED'') 3000
        [WsClose, WsClose, WsClose, WsOpen] client0) = [Init (Some 3000)] \<and>
   reconnectAttempts
     (client_run (\<lambda>opts body. Inl ''ECONNREFUSED'') 3000
        [WsClose, WsClose, WsClose,
         WsMessage (Ready ''http://a1b2c3d4e5f6.tunnel.localhost:8081'' ''a1b2c3d4e5f6'')]
        client0) = 3"
  by (simp add: client_run_def client0_def reconnect_def ws_send_def)

text \<open>
  C7. On a \<open>request\<close> message the client calls \<open>ws.send\<close> exactly once, with a
  \<open>response\<close> that carries the request's correlation id, and changes nothing else: the
  forwarded status, headers and body when the local service answered, and status 502 with
  the body \<open>Tunnel Error: <message>\<close> when the local call failed. (The local call is
  taken to settle and \<open>ws.send\<close> to accept the message.)
\<close>

theorem handleRequest_one_response:
  "\<exists>st hs body.
     client_step svc lp (WsMessage (Request rid meth pth rhs rbody)) c =
       c\<lparr>wsSent := wsSent c @ [Response rid st hs body]\<rparr> \<and>
     (case forwardToLocalhost svc lp meth pth rhs rbody of
        Inr (st', hs', body') \<Rightarrow> st = st' \<and> hs = hs' \<and> body = Some body'
      | Inl err \<Rightarrow>
          st = 502 \<and> hs = [(''Content-Type'', ''text/plain'')] \<and>
          body = Some (''Tunnel Error: '' @ err))"
  by (cases "forwardToLocalhost svc lp meth pth rhs rbody")
     (auto simp add: handleRequest_def ws_send_def)

theorem handleRequest_one_response_witness:
  "wsSent (client_step (\<lambda>opts body. Inr (200, [(''content-type'', ''text/plain'')], ''hello'')) 3000
      (WsMessage (Request ''127.0.0.1-1700000000000-0.5'' ''GET'' ''/'' [] None)) client0) =
     [Response ''127.0.0.1-1700000000000-0.5'' 200 [(''content-type'', ''text/plain'')] (Some ''hello'')] \<and>
   wsSent (client_step (\<lambda>opts body. Inl ''connect ECONNREFUSED'') 3000
      (WsMessage (Request ''127.0.0.1-1700000000000-0.5'' ''GET'' ''/'' [] None)) client0) =
     [Response ''127.0.0.1-1700000000000-0.5'' 502 [(''Content-Type'', ''text/plain'')]
        (Some ''Tunnel Error: connect ECONNREFUSED'')]"
  using handleRequest_one_response [of "\<lambda>opts body. Inr (200, [(''content-type'', ''text/plain'')], ''hello'')"
      3000 "''127.0.0.1-1700000000000-0.5''" "''GET''" "''/''" "[]" None client0]
    handleRequest_one_response [of "\<lambda>opts body. Inl ''connect ECONNREFUSED''"
      3000 "''127.0.0.1-1700000000000-0.5''" "''GET''" "''/''" "[]" None client0]
  by (auto simp add: forwardToLocalhost_def client0_def)

lemma filter_update_other:
  "k \<in> K \<Longrightarrow>
   filter (\<lambda>e. fst e \<notin> K) (AList.update k v xs) = filter (\<lambda>e. fst e \<notin> K) xs"
  by (induction xs) auto

text \<open>
  C10. The request that \<open>forwardToLocalhost\<close> hands to the local service has the header
  \<open>host\<close> set to \<open>localhost:<localPort>\<close> and \<open>x-forwarded-proto\<close> set to \<open>https\<close>;
  every other header field has the value it had in the \<open>request\<close> message, and the other
  fields stand in their original order.
\<close>

theorem forward_headers_frame:
  "forwardToLocalhost svc lp meth pth hs body =
     svc (forward_options lp meth pth hs)
       (case body of None \<Rightarrow> None | Some b \<Rightarrow> if b = [] then None else Some b) \<and>
   map_of (opt_headers (forward_options lp meth pth hs)) ''host'' =
     Some (''localhost:'' @ show_nat lp) \<and>
   map_of (opt_headers (forward_options lp meth pth hs)) ''x-forwarded-proto'' = Some ''https'' \<and>
   (\<forall>k. k \<noteq> ''host'' \<and> k \<noteq> ''x-forwarded-proto'' \<longrightarrow>
      map_of (opt_headers (forward_options lp meth pth hs)) k = map_of hs k) \<and>
   filter (\<lambda>e. fst e \<noteq> ''host'' \<and> fst e \<noteq> ''x-forwarded-proto'')
      (opt_headers (forward_options lp meth pth hs)) =
     filter (\<lambda>e. fst e \<noteq> ''host'' \<and> fst e \<noteq> ''x-forwarded-proto'') hs"
proof -
  have a: "filter (\<lambda>e. fst e \<noteq> ''host'' \<and> fst e \<noteq> ''x-forwarded-proto'')
             (AList.update ''x-forwarded-proto'' v ys) =
           filter (\<lambda>e. fst e \<noteq> ''host'' \<and> fst e \<noteq> ''x-forwarded-proto'') ys" for v ys
    using filter_update_other [of "''x-forwarded-proto''" "{''host'', ''x-forwarded-proto''}" v ys]
    by simp
  have b: "filter (\<lambda>e. fst e \<noteq> ''host'' \<and> fst e \<noteq> ''x-forwarded-proto'')
             (AList.update ''host'' v ys) =
           filter (\<lambda>e. fst e \<noteq> ''host'' \<and> fst e \<noteq> ''x-forwarded-proto'') ys" for v ys
    using filter_update_other [of "''host''" "{''host'', ''x-forwarded-proto''}" v ys]
    by simp
  show ?thesis
    by (simp add: forwardToLocalhost_def forward_options_def forward_headers_def
        AList.update_conv' a b)
qed

theorem forward_headers_frame_witness:
  "opt_headers (forward_options 3000 ''GET'' ''/''
      [(''host'', ''a1b2c3d4e5f6.tunnel.localhost:8081''), (''accept'', ''text/html'')]) =
     [(''host'', ''localhost:3000''), (''accept'', ''text/html''), (''x-forwarded-proto'', ''https'')] \<and>
   map_of (opt_headers (forward_options 3000 ''GET'' ''/''
      [(''host'', ''a1b2c3d4e5f6.tunnel.localhost:8081''), (''accept'', ''text/html'')])) ''accept'' =
     Some ''text/html''"
  using forward_headers_frame [of "\<lambda>opts body. Inl []" 3000 "''GET''" "''/''"
      "[(''host'', ''a1b2c3d4e5f6.tunnel.localhost:8081''), (''accept'', ''text/html'')]" None]
  by (simp add: forward_options_def forward_headers_def show_nat_3000)

section \<open>Properties of the relay\<close>

text \<open>
  \<open>ws.send\<close> is taken to accept its argument: the model logs the call and goes on. The
  replies the relay composes itself (200, 404, 502, 503, 504 with fixed headers) are always
  written; a reply whose status and headers come from a \<open>response\<close> message is written
  when \<open>accepts\<close> takes it.
\<close>

lemmas relay_defs = relay_run_def relay0_def onConnection_def ready_of_def handleInit_def
  handleResponse_def onClose_def onPingTimer_def httpServer_def forwardRequest_def onData_def
  onEnd_def onTimeout_def res_write_def relay_send_def ws_close_def headersSent_def
  generateSubdomain_def hex_byte_def hex_digit_def default_config_def host_of_def
  extract_subdomain_def startsWith_def REQUEST_TIMEOUT_def not_found_body_def health_body_def
  quoted_def node_accepts_def valid_header_name_def valid_header_value_def token_char_def

lemma show_nat_now: "show_nat 1700000000000 = ''1700000000000''"
  by (simp add: show_nat.simps digit_def)

lemma show_nat_small: "show_nat 0 = ''0''" "show_nat (Suc 0) = ''1''"
  by (simp_all add: show_nat.simps digit_def)

subsection \<open>Registration\<close>

lemma length_generateSubdomain: "length (generateSubdomain bytes) = 2 * length bytes"
  by (induction bytes) (simp_all add: generateSubdomain_def hex_byte_def)

lemma hex_digit_in: "d < 16 \<Longrightarrow> hex_digit d \<in> set ''0123456789abcdef''"
  unfolding hex_digit_def by (rule nth_mem) simp

lemma hex_byte_in: "set (hex_byte b) \<subseteq> set ''0123456789abcdef''"
proof -
  have "unat b < 256" using unsigned_less [of b, where ?'a = nat] by simp
  then have "unat b div 16 < 16" "unat b mod 16 < 16" by simp_all
  then show ?thesis
    using hex_digit_in [of "unat b div 16"] hex_digit_in [of "unat b mod 16"]
    by (simp add: hex_byte_def)
qed

lemma generateSubdomain_hex: "set (generateSubdomain bytes) \<subseteq> set ''0123456789abcdef''"
  using hex_byte_in by (induction bytes) (auto simp add: generateSubdomain_def)

lemma length_registry_update:
  "length (AList.update k v xs) =
     (if map_of xs k = None then Suc (length xs) else length xs)"
  by (induction xs) auto

lemma map_of_map_entry_same:
  "map_of (AList.map_entry k f xs) k' =
     (if k' = k then map_option f (map_of xs k) else map_of xs k')"
  by (induction xs) auto

text \<open>
  C3, as the code has it. \<open>handleInit\<close> generates one identifier, the hexadecimal text
  of the six random bytes (twelve hexadecimal characters), and neither looks it up in the
  registry nor generates again. It stores the identifier in the session, maps it to the
  channel in \<open>tunnels\<close>, leaves every other identifier's entry as it was and sends it in
  \<open>ready\<close>. When the identifier is not registered the registry grows by one entry; when
  it is registered already, the entry of the earlier tunnel is replaced.
\<close>

theorem handleInit_registers:
  "map_of (tunnels (handleInit cfg w lp bytes s)) (generateSubdomain bytes) =
     Some \<lparr>tunnel_ws = w,
           tunnel_localPort = (case lp of None \<Rightarrow> 3000 | Some p \<Rightarrow> if p = 0 then 3000 else p)\<rparr> \<and>
   (\<forall>k. k \<noteq> generateSubdomain bytes \<longrightarrow>
      map_of (tunnels (handleInit cfg w lp bytes s)) k = map_of (tunnels s) k) \<and>
   wsSends (handleInit cfg w lp bytes s) =
     wsSends s @
       [(w, Ready (''http://'' @ generateSubdomain bytes @ ''.'' @ BASE_DOMAIN cfg @ '':'' @
                   HTTP_PORT cfg) (generateSubdomain bytes))] \<and>
   (\<forall>x. map_of (sessions s) w = Some x \<longrightarrow>
      map_option subdomain (map_of (sessions (handleInit cfg w lp bytes s)) w) =
        Some (Some (generateSubdomain bytes))) \<and>
   length (tunnels (handleInit cfg w lp bytes s)) =
     (if map_of (tunnels s) (generateSubdomain bytes) = None then Suc (length (tunnels s))
      else length (tunnels s)) \<and>
   (length bytes = 6 \<longrightarrow>
      length (generateSubdomain bytes) = 12 \<and>
      set (generateSubdomain bytes) \<subseteq> set ''0123456789abcdef'')"
  using generateSubdomain_hex [of bytes]
  by (simp add: handleInit_def relay_send_def Let_def AList.update_conv' length_registry_update
      map_of_map_entry_same length_generateSubdomain)

theorem handleInit_registers_witness:
  "tunnels (handleInit default_config 0 (Some 3000) [0xa1, 0xb2, 0xc3, 0xd4, 0xe5, 0xf6]
      (onConnection ''127.0.0.1'' relay0)) =
     [(''a1b2c3d4e5f6'', \<lparr>tunnel_ws = 0, tunnel_localPort = 3000\<rparr>)] \<and>
   wsSends (handleInit default_config 0 (Some 3000) [0xa1, 0xb2, 0xc3, 0xd4, 0xe5, 0xf6]
      (onConnection ''127.0.0.1'' relay0)) =
     [(0, Ready ''http://a1b2c3d4e5f6.tunnel.localhost:8081'' ''a1b2c3d4e5f6'')] \<and>
   length (generateSubdomain [0xa1, 0xb2, 0xc3, 0xd4, 0xe5, 0xf6]) = 12"
  using handleInit_registers [of default_config 0 "Some 3000" "[0xa1, 0xb2, 0xc3, 0xd4, 0xe5, 0xf6]"
      "onConnection ''127.0.0.1'' relay0"]
  by (simp add: relay_defs Let_def)

text \<open>
  C3 as stated says the identifier registered is unique among the registered tunnels at
  the moment of registration. Two channels whose handshakes draw the same six bytes: the
  second handshake registers \<open>a1b2c3d4e5f6\<close> while channel 0 holds it, both sessions
  are told the same identifier, and the registry now routes it to channel 1 only.
\<close>

theorem handleInit_collision_counterexample:
  "(let bs = [0xa1, 0xb2, 0xc3, 0xd4, 0xe5, 0xf6];
        s1 = relay_run default_config
               [Connection ''10.0.0.1'', Message 0 (Parsed (Init (Some 3000))) bs,
                Connection ''10.0.0.2''] relay0;
        s2 = relay_step default_config (Message 1 (Parsed (Init (Some 8000))) bs) s1
    in tunnels s1 = [(''a1b2c3d4e5f6'', \<lparr>tunnel_ws = 0, tunnel_localPort = 3000\<rparr>)] \<and>
       map (\<lambda>e. (readyState (snd e), subdomain (snd e))) (sessions s1) =
         [(OPEN, Some ''a1b2c3d4e5f6''), (OPEN, None)] \<and>
       tunnels s2 = [(''a1b2c3d4e5f6'', \<lparr>tunnel_ws = 1, tunnel_localPort = 8000\<rparr>)] \<and>
       map (\<lambda>e. (readyState (snd e), subdomain (snd e))) (sessions s2) =
         [(OPEN, Some ''a1b2c3d4e5f6''), (OPEN, Some ''a1b2c3d4e5f6'')] \<and>
       wsSends s2 =
         [(0, Ready ''http://a1b2c3d4e5f6.tunnel.localhost:8081'' ''a1b2c3d4e5f6''),
          (1, Ready ''http://a1b2c3d4e5f6.tunnel.localhost:8081'' ''a1b2c3d4e5f6'')])"
  by (simp add: relay_defs Let_def)


subsection \<open>Messages on a channel\<close>




subsection \<open>Public requests\<close>

text \<open>
  C8, as the code has it. For a public request whose path is not \<open>/_health\<close>: when the
  identifier taken from the \<open>Host\<close> header has no tunnel, the relay answers 404 with a body
  that names the identifier and the number of active tunnels; when it has a tunnel whose
  channel is not open, the relay answers 503. A request whose path is \<open>/_health\<close> is
  answered 200 with the health object, which gives the numbers of tunnels and of pending
  requests, whatever its \<open>Host\<close> header. In all three cases nothing else changes: no
  message is sent on any channel and no pending entry or timeout is created.
\<close>

theorem httpServer_not_found_unavailable:
  "(req_url req \<noteq> ''/_health'' \<longrightarrow>
      (map_of (tunnels s) (extract_subdomain (host_of req)) = None \<longrightarrow>
         httpServer req now rnd s =
           s\<lparr>written := written s @
                [(next_res s, Reply 404 [(''Content-Type'', ''text/plain'')]
                    (Some (''Tunnel not found: '' @ extract_subdomain (host_of req) @
                           [CHR 0x0A, CHR 0x0A] @ ''Active tunnels: '' @
                           show_nat (length (tunnels s)))))],
              next_res := Suc (next_res s)\<rparr>) \<and>
      (\<forall>tn. map_of (tunnels s) (extract_subdomain (host_of req)) = Some tn \<and>
            ready_of s (tunnel_ws tn) \<noteq> OPEN \<longrightarrow>
         httpServer req now rnd s =
           s\<lparr>written := written s @
                [(next_res s, Reply 503 [(''Content-Type'', ''text/plain'')]
                    (Some ''Tunnel unavailable''))],
              next_res := Suc (next_res s)\<rparr>)) \<and>
   (req_url req = ''/_health'' \<longrightarrow>
      httpServer req now rnd s =
        s\<lparr>written := written s @
             [(next_res s, Reply 200 [(''Content-Type'', ''application/json'')]
                 (Some (''{'' @ [CHR 0x22] @ ''status'' @ [CHR 0x22] @ '':'' @
                        [CHR 0x22] @ ''ok'' @ [CHR 0x22] @ '','' @
                        [CHR 0x22] @ ''active_tunnels'' @ [CHR 0x22] @ '':'' @
                        show_nat (length (tunnels s)) @ '','' @
                        [CHR 0x22] @ ''pending_requests'' @ [CHR 0x22] @ '':'' @
                        show_nat (length (pendingResponses s)) @ ''}'')))],
           next_res := Suc (next_res s)\<rparr>)"
  by (simp add: httpServer_def forwardRequest_def res_write_def not_found_body_def
      health_body_def quoted_def ready_of_def Let_def)

theorem httpServer_not_found_unavailable_witness:
  "(let s1 = relay_run default_config
               [Connection ''127.0.0.1'',
                Message 0 (Parsed (Init (Some 3000))) [0xa1, 0xb2, 0xc3, 0xd4, 0xe5, 0xf6],
                Message 0 Unparseable []] relay0
    in written (httpServer \<lparr>req_method = ''GET'', req_url = ''/'',
                  req_headers = [(''host'', ''zzzzzz.tunnel.localhost:8081'')]\<rparr>
                  1700000000000 ''0.5'' s1) =
         [(0, Reply 404 [(''Content-Type'', ''text/plain'')]
                (Some (''Tunnel not found: zzzzzz'' @ [CHR 0x0A, CHR 0x0A] @
                       ''Active tunnels: 1'')))] \<and>
       written (httpServer \<lparr>req_method = ''GET'', req_url = ''/'',
                  req_headers = [(''host'', ''a1b2c3d4e5f6.tunnel.localhost:8081'')]\<rparr>
                  1700000000000 ''0.5'' s1) =
         [(0, Reply 503 [(''Content-Type'', ''text/plain'')] (Some ''Tunnel unavailable''))] \<and>
       wsSends (httpServer \<lparr>req_method = ''GET'', req_url = ''/'',
                  req_headers = [(''host'', ''a1b2c3d4e5f6.tunnel.localhost:8081'')]\<rparr>
                  1700000000000 ''0.5'' s1) = wsSends s1 \<and>
       written (httpServer \<lparr>req_method = ''GET'', req_url = ''/_health'',
                  req_headers = [(''host'', ''a1b2c3d4e5f6.tunnel.localhost:8081'')]\<rparr>
                  1700000000000 ''0.5'' s1) =
         [(0, Reply 200 [(''Content-Type'', ''application/json'')]
                (Some (''{'' @ [CHR 0x22] @ ''status'' @ [CHR 0x22] @ '':'' @
                       [CHR 0x22] @ ''ok'' @ [CHR 0x22] @ '','' @
                       [CHR 0x22] @ ''active_tunnels'' @ [CHR 0x22] @ '':1,'' @
                       [CHR 0x22] @ ''pending_requests'' @ [CHR 0x22] @ '':0}'')))])"
  using httpServer_not_found_unavailable [of
      "\<lparr>req_method = ''GET'', req_url = ''/'',
        req_headers = [(''host'', ''zzzzzz.tunnel.localhost:8081'')]\<rparr>"
      "relay_run default_config
               [Connection ''127.0.0.1'',
                Message 0 (Parsed (Init (Some 3000))) [0xa1, 0xb2, 0xc3, 0xd4, 0xe5, 0xf6],
                Message 0 Unparseable []] relay0" 1700000000000 "''0.5''"]
    httpServer_not_found_unavailable [of
      "\<lparr>req_method = ''GET'', req_url = ''/'',
        req_headers = [(''host'', ''a1b2c3d4e5f6.tunnel.localhost:8081'')]\<rparr>"
      "relay_run default_config
               [Connection ''127.0.0.1'',
                Message 0 (Parsed (Init (Some 3000))) [0xa1, 0xb2, 0xc3, 0xd4, 0xe5, 0xf6],
                Message 0 Unparseable []] relay0" 1700000000000 "''0.5''"]
    httpServer_not_found_unavailable [of
      "\<lparr>req_method = ''GET'', req_url = ''/_health'',
        req_headers = [(''host'', ''a1b2c3d4e5f6.tunnel.localhost:8081'')]\<rparr>"
      "relay_run default_config
               [Connection ''127.0.0.1'',
                Message 0 (Parsed (Init (Some 3000))) [0xa1, 0xb2, 0xc3, 0xd4, 0xe5, 0xf6],
                Message 0 Unparseable []] relay0" 1700000000000 "''0.5''"]
  by (simp add: relay_defs Let_def show_nat_small)

text \<open>
  C8 as stated covers every public request whose identifier has no tunnel. The health check
  comes first in the handler: a request for \<open>/_health\<close> on the unregistered host
  \<open>zzzzzz\<close> is answered 200 with the health object, not 404.
\<close>

theorem health_unregistered_host_counterexample:
  "map_of (tunnels relay0)
     (extract_subdomain (host_of \<lparr>req_method = ''GET'', req_url = ''/_health'',
        req_headers = [(''host'', ''zzzzzz.tunnel.localhost:8081'')]\<rparr>)) = None \<and>
   written (httpServer \<lparr>req_method = ''GET'', req_url = ''/_health'',
              req_headers = [(''host'', ''zzzzzz.tunnel.localhost:8081'')]\<rparr>
              1700000000000 ''0.5'' relay0) =
     [(0, Reply 200 [(''Content-Type'', ''application/json'')]
            (Some (''{'' @ quoted ''status'' @ '':'' @ quoted ''ok'' @ '','' @
                   quoted ''active_tunnels'' @ '':0,'' @
                   quoted ''pending_requests'' @ '':0}'')))]"
  by (simp add: relay_defs show_nat_small)

subsection \<open>Closing a tunnel\<close>

text \<open>
  C1 on the code. The \<open>close\<close> handler fails the pending entries whose key starts with the
  tunnel's subdomain, but \<open>forwardRequest\<close> builds the key from the channel's remote
  address, the clock and a random number. A tunnel \<open>a1b2c3d4e5f6\<close> from \<open>127.0.0.1\<close> has
  one request forwarded and pending when its channel closes: the tunnel is removed, the
  pending entry stays, nothing is written to the public caller, and the caller is answered
  504 only when the timeout fires.
\<close>

theorem close_leaves_pending_request:
  "(let s = relay_run default_config
              [Connection ''127.0.0.1'',
               Message 0 (Parsed (Init (Some 3000))) [0xa1, 0xb2, 0xc3, 0xd4, 0xe5, 0xf6],
               HttpRequest \<lparr>req_method = ''GET'', req_url = ''/'',
                 req_headers = [(''host'', ''a1b2c3d4e5f6.tunnel.localhost:8081'')]\<rparr>
                 1700000000000 ''0.5'',
               HttpEnd 0] relay0;
        s' = relay_step default_config (Close 0) s
    in tunnels s = [(''a1b2c3d4e5f6'', \<lparr>tunnel_ws = 0, tunnel_localPort = 3000\<rparr>)] \<and>
       pendingResponses s = [(''127.0.0.1-1700000000000-0.5'', \<lparr>res = 0, timer = 1\<rparr>)] \<and>
       wsSends s =
         [(0, Ready ''http://a1b2c3d4e5f6.tunnel.localhost:8081'' ''a1b2c3d4e5f6''),
          (0, Request ''127.0.0.1-1700000000000-0.5'' ''GET'' ''/''
                [(''host'', ''a1b2c3d4e5f6.tunnel.localhost:8081'')] None)] \<and>
       tunnels s' = [] \<and>
       ready_of s' 0 = CLOSED \<and>
       pendingResponses s' = [(''127.0.0.1-1700000000000-0.5'', \<lparr>res = 0, timer = 1\<rparr>)] \<and>
       written s' = [] \<and>
       written (relay_step default_config (Timeout 1) s') =
         [(0, Reply 504 [(''Content-Type'', ''text/plain'')] (Some ''Gateway Timeout''))])"
  by (simp add: relay_defs Let_def show_nat_now)

subsection \<open>The invariant is preserved by every handler\<close>

lemmas inv_defs = inv_tunnels_def inv_keys_def inv_bounds_def inv_pending_def
  inv_receiving_def inv_timers_def

lemma relay_inv_cong:
  "tunnels x = tunnels y \<Longrightarrow> pendingResponses x = pendingResponses y \<Longrightarrow>
   timeouts x = timeouts y \<Longrightarrow> receiving x = receiving y \<Longrightarrow> written x = written y \<Longrightarrow>
   next_res x = next_res y \<Longrightarrow> next_timer x = next_timer y \<Longrightarrow>
   relay_inv x = relay_inv y"
  by (simp add: relay_inv_def inv_defs)

lemma set_delete: "set (AList.delete k xs) = {e \<in> set xs. fst e \<noteq> k}"
  by (induction xs) auto

lemma set_update_distinct:
  "distinct (map fst xs) \<Longrightarrow>
   set (AList.update k v xs) = insert (k, v) {e \<in> set xs. fst e \<noteq> k}"
  by (induction xs) (auto simp add: rev_image_eqI)

lemma relay0_inv: "relay_inv relay0"
  by (simp add: relay_inv_def inv_defs relay0_def)

lemma onConnection_inv: "relay_inv s \<Longrightarrow> relay_inv (onConnection addr s)"
  by (simp add: relay_inv_def inv_defs onConnection_def)

lemma ws_close_inv: "relay_inv s \<Longrightarrow> relay_inv (ws_close w s)"
  by (simp add: relay_inv_def inv_defs ws_close_def)

lemma handleInit_inv:
  assumes "relay_inv s" and six: "length bytes = 6"
  shows "relay_inv (handleInit cfg w lp bytes s)"
proof -
  let ?s' = "handleInit cfg w lp bytes s"
  from assms have T: "inv_tunnels s" and K: "inv_keys s" and B: "inv_bounds s"
    and P: "inv_pending s" and R: "inv_receiving s" and M: "inv_timers s"
    by (simp_all add: relay_inv_def)
  have same: "pendingResponses ?s' = pendingResponses s" "timeouts ?s' = timeouts s"
    "receiving ?s' = receiving s" "written ?s' = written s" "next_res ?s' = next_res s"
    "next_timer ?s' = Suc (next_timer s)"
    by (simp_all add: handleInit_def relay_send_def Let_def)
  have tun: "tunnels ?s' =
      AList.update (generateSubdomain bytes)
        \<lparr>tunnel_ws = w,
         tunnel_localPort = (case lp of None \<Rightarrow> 3000 | Some p \<Rightarrow> if p = 0 then 3000 else p)\<rparr>
        (tunnels s)"
    by (simp add: handleInit_def relay_send_def Let_def)
  have "inv_tunnels ?s'"
    unfolding inv_tunnels_def tun
    using T six
    by (auto simp add: inv_tunnels_def AList.distinct_update length_generateSubdomain
        set_update_distinct)
  moreover have "inv_keys ?s'" using K by (simp add: inv_keys_def same)
  moreover have "inv_bounds ?s'" using B by (auto simp add: inv_bounds_def same less_Suc_eq)
  moreover have "inv_pending ?s'" using P by (simp add: inv_pending_def same)
  moreover have "inv_receiving ?s'" using R by (simp add: inv_receiving_def same)
  moreover have "inv_timers ?s'" using M by (simp add: inv_timers_def same)
  ultimately show ?thesis by (simp add: relay_inv_def)
qed

lemma onPingTimer_inv: "relay_inv s \<Longrightarrow> relay_inv (onPingTimer i s)"
  by (simp add: relay_inv_def inv_defs onPingTimer_def relay_send_def split: option.splits)





lemma pending_res_lt:
  "inv_pending s \<Longrightarrow> inv_bounds s \<Longrightarrow> e \<in> set (pendingResponses s) \<Longrightarrow>
   res (snd e) < next_res s"
  unfolding inv_pending_def inv_bounds_def by fastforce

lemma fresh_write_inv:
  assumes "relay_inv s"
  shows "relay_inv (res_write (next_res s) rep (s\<lparr>next_res := Suc (next_res s)\<rparr>))"
proof -
  let ?s' = "res_write (next_res s) rep (s\<lparr>next_res := Suc (next_res s)\<rparr>)"
  from assms have T: "inv_tunnels s" and K: "inv_keys s" and B: "inv_bounds s"
    and P: "inv_pending s" and R: "inv_receiving s" and M: "inv_timers s"
    by (simp_all add: relay_inv_def)
  have "inv_tunnels ?s'" using T by (simp add: inv_tunnels_def res_write_def)
  moreover have "inv_keys ?s'"
    using K B unfolding inv_keys_def inv_bounds_def res_write_def by auto
  moreover have "inv_bounds ?s'"
    using B unfolding inv_bounds_def res_write_def by (auto simp add: less_Suc_eq)
  moreover have "inv_pending ?s'"
    using P unfolding inv_pending_def res_write_def
    by (auto dest: pending_res_lt [OF P B])
  moreover have "inv_receiving ?s'"
    using R B unfolding inv_receiving_def inv_bounds_def res_write_def by auto
  moreover have "inv_timers ?s'" using M by (simp add: inv_timers_def res_write_def)
  ultimately show ?thesis by (simp add: relay_inv_def)
qed

lemma fresh_receive_inv:
  assumes "relay_inv s"
  shows "relay_inv (s\<lparr>next_res := Suc (next_res s),
                      receiving := receiving s @ [(next_res s, q)]\<rparr>)"
proof -
  let ?s' = "s\<lparr>next_res := Suc (next_res s), receiving := receiving s @ [(next_res s, q)]\<rparr>"
  from assms have T: "inv_tunnels s" and K: "inv_keys s" and B: "inv_bounds s"
    and P: "inv_pending s" and R: "inv_receiving s" and M: "inv_timers s"
    by (simp_all add: relay_inv_def)
  have "inv_tunnels ?s'" using T by (simp add: inv_tunnels_def)
  moreover have "inv_keys ?s'"
    using K B unfolding inv_keys_def inv_bounds_def by auto
  moreover have "inv_bounds ?s'"
    using B unfolding inv_bounds_def by (auto simp add: less_Suc_eq)
  moreover have "inv_pending ?s'"
    using P unfolding inv_pending_def
    by (auto dest: pending_res_lt [OF P B])
  moreover have "inv_receiving ?s'"
    using R B unfolding inv_receiving_def inv_bounds_def by auto
  moreover have "inv_timers ?s'" using M by (simp add: inv_timers_def)
  ultimately show ?thesis by (simp add: relay_inv_def)
qed

lemma httpServer_inv: "relay_inv s \<Longrightarrow> relay_inv (httpServer req now rnd s)"
  using fresh_write_inv [of s] fresh_receive_inv [of s]
  by (simp add: httpServer_def forwardRequest_def Let_def ready_of_def split: option.splits)


lemma pending_timer_entry:
  "inv_pending s \<Longrightarrow> (rid, p) \<in> set (pendingResponses s) \<Longrightarrow>
   (timer p, \<lparr>t_delay = REQUEST_TIMEOUT, t_requestId = rid, t_res = res p\<rparr>) \<in> set (timeouts s)"
  unfolding inv_pending_def by fastforce

text \<open>Two pending entries never share a response object or a timer.\<close>

lemma pending_res_inj:
  assumes P: "inv_pending s" and M: "inv_timers s"
    and e: "(rid, p) \<in> set (pendingResponses s)" and e': "(rid', p') \<in> set (pendingResponses s)"
    and eq: "res p = res p'"
  shows "rid = rid'"
proof -
  let ?a = "(timer p, \<lparr>t_delay = REQUEST_TIMEOUT, t_requestId = rid, t_res = res p\<rparr>)"
  let ?a' = "(timer p', \<lparr>t_delay = REQUEST_TIMEOUT, t_requestId = rid', t_res = res p'\<rparr>)"
  have "?a \<in> set (timeouts s)" "?a' \<in> set (timeouts s)"
    using pending_timer_entry [OF P e] pending_timer_entry [OF P e'] by simp_all
  moreover have "t_res (snd ?a) = t_res (snd ?a')" using eq by simp
  ultimately have "?a = ?a'" using M unfolding inv_timers_def by blast
  then show ?thesis by simp
qed

lemma pending_timer_inj:
  assumes P: "inv_pending s" and K: "inv_keys s"
    and e: "(rid, p) \<in> set (pendingResponses s)" and e': "(rid', p') \<in> set (pendingResponses s)"
    and eq: "timer p = timer p'"
  shows "rid = rid'"
proof -
  have "(timer p, \<lparr>t_delay = REQUEST_TIMEOUT, t_requestId = rid, t_res = res p\<rparr>)
          \<in> set (timeouts s)"
    "(timer p, \<lparr>t_delay = REQUEST_TIMEOUT, t_requestId = rid', t_res = res p'\<rparr>)
          \<in> set (timeouts s)"
    using pending_timer_entry [OF P e] pending_timer_entry [OF P e'] eq by simp_all
  moreover have "distinct (map fst (timeouts s))" using K by (simp add: inv_keys_def)
  ultimately have "\<lparr>t_delay = REQUEST_TIMEOUT, t_requestId = rid, t_res = res p\<rparr> =
      \<lparr>t_delay = REQUEST_TIMEOUT, t_requestId = rid', t_res = res p'\<rparr>"
    by (rule eq_key_imp_eq_value [rotated])
  then show ?thesis by simp
qed

text \<open>Answering a pending entry: the body of \<open>handleResponse\<close>.\<close>

lemma respond_inv:
  assumes "relay_inv s" and e: "(rid, p) \<in> set (pendingResponses s)"
    and ws: "ws = [] \<or> ws = [(res p, rep)]"
  shows "relay_inv
           (s\<lparr>timeouts := AList.delete (timer p) (timeouts s),
              pendingResponses := AList.delete rid (pendingResponses s),
              written := written s @ ws\<rparr>)"
proof -
  let ?s' = "s\<lparr>timeouts := AList.delete (timer p) (timeouts s),
              pendingResponses := AList.delete rid (pendingResponses s),
              written := written s @ ws\<rparr>"
  from assms have T: "inv_tunnels s" and K: "inv_keys s" and B: "inv_bounds s"
    and P: "inv_pending s" and R: "inv_receiving s" and M: "inv_timers s"
    by (simp_all add: relay_inv_def)
  have te: "(timer p, \<lparr>t_delay = REQUEST_TIMEOUT, t_requestId = rid, t_res = res p\<rparr>)
      \<in> set (timeouts s)"
    by (rule pending_timer_entry [OF P e])
  have unwritten: "\<forall>w\<in>set (written s). fst w \<noteq> res p"
    and unreceived: "\<forall>q\<in>set (receiving s). fst q \<noteq> res p"
    using P e unfolding inv_pending_def by fastforce+
  have dt: "distinct (map fst (timeouts s))" using K by (simp add: inv_keys_def)
  have "inv_tunnels ?s'" using T by (simp add: inv_tunnels_def)
  moreover have "inv_keys ?s'"
    using K unwritten ws
    by (auto simp add: inv_keys_def AList.distinct_delete)
  moreover have "inv_bounds ?s'"
    using B pending_res_lt [OF P B e] ws
    by (auto simp add: inv_bounds_def set_delete)
  moreover have "inv_pending ?s'"
    unfolding inv_pending_def
  proof (intro ballI)
    fix x assume "x \<in> set (pendingResponses ?s')"
    then have x: "(fst x, snd x) \<in> set (pendingResponses s)" and ne: "fst x \<noteq> rid"
      by (simp_all add: set_delete)
    have "timer (snd x) \<noteq> timer p"
      using pending_timer_inj [OF P K x e] ne by auto
    moreover have "res (snd x) \<noteq> res p"
      using pending_res_inj [OF P M x e] ne by auto
    ultimately show "(timer (snd x),
         \<lparr>t_delay = REQUEST_TIMEOUT, t_requestId = fst x, t_res = res (snd x)\<rparr>)
          \<in> set (timeouts ?s') \<and>
        (\<forall>w\<in>set (written ?s'). fst w \<noteq> res (snd x)) \<and>
        (\<forall>q\<in>set (receiving ?s'). fst q \<noteq> res (snd x))"
      using P x ws unfolding inv_pending_def
      by (auto simp add: set_delete)
  qed
  moreover have "inv_receiving ?s'"
    using R unreceived ws
    by (auto simp add: inv_receiving_def set_delete)
  moreover have "inv_timers ?s'"
    using M by (auto simp add: inv_timers_def set_delete)
  ultimately show ?thesis by (simp add: relay_inv_def)
qed

lemma handleResponse_inv:
  assumes inv: "relay_inv s"
  shows "case handleResponse cfg rid st hs body s of
           Returned s' \<Rightarrow> relay_inv s' | Threw s' \<Rightarrow> relay_inv s'"
proof (cases "map_of (pendingResponses s) rid")
  case None
  then show ?thesis using inv by (simp add: handleResponse_def)
next
  case (Some p)
  then have e: "(rid, p) \<in> set (pendingResponses s)" by (rule map_of_SomeD)
  show ?thesis
  proof (cases "accepts cfg st hs body")
    case True
    have "relay_inv (res_write (res p) (Reply st hs body)
        (s\<lparr>timeouts := AList.delete (timer p) (timeouts s),
           pendingResponses := AList.delete rid (pendingResponses s)\<rparr>))"
      by (rule iffD1 [OF relay_inv_cong
            respond_inv [OF inv e, of "[(res p, Reply st hs body)]" "Reply st hs body"]])
         (simp_all add: res_write_def)
    then show ?thesis using Some True by (simp add: handleResponse_def)
  next
    case False
    have "relay_inv
        (s\<lparr>timeouts := AList.delete (timer p) (timeouts s),
           pendingResponses := AList.delete rid (pendingResponses s)\<rparr>)"
      by (rule iffD1 [OF relay_inv_cong respond_inv [OF inv e, of "[]" "Reply st hs body"]])
         simp_all
    then show ?thesis using Some False by (simp add: handleResponse_def)
  qed
qed


text \<open>One round of the loop of the \<open>close\<close> handler that matches.\<close>

lemma fail_inv:
  assumes "relay_inv s" and e: "(rid, p) \<in> set (pendingResponses s)"
  shows "relay_inv ((res_write (res p) rep s)
           \<lparr>pendingResponses := AList.delete rid (pendingResponses s)\<rparr>)"
proof -
  let ?s' = "(res_write (res p) rep s)\<lparr>pendingResponses := AList.delete rid (pendingResponses s)\<rparr>"
  from assms have T: "inv_tunnels s" and K: "inv_keys s" and B: "inv_bounds s"
    and P: "inv_pending s" and R: "inv_receiving s" and M: "inv_timers s"
    by (simp_all add: relay_inv_def)
  have unwritten: "\<forall>w\<in>set (written s). fst w \<noteq> res p"
    and unreceived: "\<forall>q\<in>set (receiving s). fst q \<noteq> res p"
    using P e unfolding inv_pending_def by fastforce+
  have "inv_tunnels ?s'" using T by (simp add: inv_tunnels_def res_write_def)
  moreover have "inv_keys ?s'"
    using K unwritten
    by (auto simp add: inv_keys_def res_write_def AList.distinct_delete)
  moreover have "inv_bounds ?s'"
    using B pending_res_lt [OF P B e]
    by (auto simp add: inv_bounds_def res_write_def)
  moreover have "inv_pending ?s'"
    unfolding inv_pending_def
  proof (intro ballI)
    fix x assume "x \<in> set (pendingResponses ?s')"
    then have x: "(fst x, snd x) \<in> set (pendingResponses s)" and ne: "fst x \<noteq> rid"
      by (simp_all add: res_write_def set_delete)
    have "res (snd x) \<noteq> res p"
      using pending_res_inj [OF P M x e] ne by auto
    then show "(timer (snd x),
         \<lparr>t_delay = REQUEST_TIMEOUT, t_requestId = fst x, t_res = res (snd x)\<rparr>)
          \<in> set (timeouts ?s') \<and>
        (\<forall>w\<in>set (written ?s'). fst w \<noteq> res (snd x)) \<and>
        (\<forall>q\<in>set (receiving ?s'). fst q \<noteq> res (snd x))"
      using P x unfolding inv_pending_def
      by (auto simp add: res_write_def)
  qed
  moreover have "inv_receiving ?s'"
    using R unreceived
    by (auto simp add: inv_receiving_def res_write_def)
  moreover have "inv_timers ?s'"
    using M by (simp add: inv_timers_def res_write_def)
  ultimately show ?thesis by (simp add: relay_inv_def)
qed

lemma failPending_inv:
  "relay_inv s \<Longrightarrow> set es \<subseteq> set (pendingResponses s) \<Longrightarrow> distinct (map fst es) \<Longrightarrow>
   relay_inv (failPending sd es s)"
proof (induction es arbitrary: s)
  case Nil
  then show ?case by simp
next
  case (Cons x es)
  obtain rid p where x: "x = (rid, p)" by (cases x)
  show ?case
  proof (cases "startsWith rid sd")
    case False
    then show ?thesis using Cons x by simp
  next
    case True
    let ?s' = "(res_write (res p) (Reply 502 [(''Content-Type'', ''text/plain'')]
                (Some ''Tunnel disconnected'')) s)
               \<lparr>pendingResponses := AList.delete rid (pendingResponses s)\<rparr>"
    have "(rid, p) \<in> set (pendingResponses s)" using Cons.prems x by simp
    then have "relay_inv ?s'" using fail_inv Cons.prems(1) by blast
    moreover have "set es \<subseteq> set (pendingResponses ?s')"
      using Cons.prems x by (auto simp add: set_delete rev_image_eqI)
    moreover have "distinct (map fst es)" using Cons.prems by simp
    ultimately have "relay_inv (failPending sd es ?s')" by (rule Cons.IH)
    then show ?thesis using True x by simp
  qed
qed

lemma onClose_inv: "relay_inv s \<Longrightarrow> relay_inv (onClose w s)"
proof -
  assume inv: "relay_inv s"
  have frame: "relay_inv x \<Longrightarrow> relay_inv (x\<lparr>sessions := ss\<rparr>)"
    "relay_inv x \<Longrightarrow> relay_inv (x\<lparr>intervals := is\<rparr>)" for x ss "is"
    by (simp_all add: relay_inv_def inv_defs)
  have tun: "relay_inv x \<Longrightarrow> relay_inv (x\<lparr>tunnels := AList.delete sd (tunnels x)\<rparr>)" for x sd
    by (auto simp add: relay_inv_def inv_defs AList.distinct_delete set_delete)
  have dk: "distinct (map fst (pendingResponses s))"
    using inv by (simp add: relay_inv_def inv_keys_def)
  have loop: "relay_inv (failPending sd (pendingResponses s)
      (s\<lparr>sessions := ss, tunnels := AList.delete sd (tunnels s)\<rparr>))" for sd ss
    using failPending_inv [of "s\<lparr>sessions := ss, tunnels := AList.delete sd (tunnels s)\<rparr>"
        "pendingResponses s" sd] tun [OF frame(1) [OF inv, of ss], of sd] dk
    by simp
  show ?thesis
    using inv loop frame
    by (simp add: onClose_def Let_def split: option.splits)
qed


lemma onData_inv: "relay_inv s \<Longrightarrow> relay_inv (onData r chunk s)"
proof -
  assume inv: "relay_inv s"
  let ?rc = "AList.map_entry r (\<lambda>q. q\<lparr>rc_body := rc_body q @ chunk\<rparr>) (receiving s)"
  have keys: "fst ` set ?rc = fst ` set (receiving s)" by (rule AList.dom_map_entry)
  have all: "(\<forall>q\<in>set ?rc. Q (fst q)) = (\<forall>q\<in>set (receiving s). Q (fst q))" for Q
    using keys by (metis (no_types, lifting) image_iff)
  have ex: "(\<exists>q\<in>set ?rc. Q (fst q)) = (\<exists>q\<in>set (receiving s). Q (fst q))" for Q
    using keys by (metis (no_types, lifting) image_iff)
  from inv have T: "inv_tunnels s" and K: "inv_keys s" and B: "inv_bounds s"
    and P: "inv_pending s" and R: "inv_receiving s" and M: "inv_timers s"
    by (simp_all add: relay_inv_def)
  have "inv_tunnels (onData r chunk s)" using T by (simp add: inv_tunnels_def onData_def)
  moreover have "inv_keys (onData r chunk s)"
    using K by (simp add: inv_keys_def onData_def AList.distinct_map_entry)
  moreover have "inv_bounds (onData r chunk s)"
    using B all [of "\<lambda>k. k < next_res s"] by (simp add: inv_bounds_def onData_def)
  moreover have "inv_pending (onData r chunk s)"
    using P all [of "\<lambda>k. k \<noteq> x" for x] by (simp add: inv_pending_def onData_def)
  moreover have "inv_receiving (onData r chunk s)"
    using R all [of "\<lambda>k. (\<forall>w\<in>set (written s). fst w \<noteq> k) \<and>
        (\<forall>a\<in>set (timeouts s). t_res (snd a) \<noteq> k)"]
    by (simp add: inv_receiving_def onData_def)
  moreover have "inv_timers (onData r chunk s)" using M by (simp add: inv_timers_def onData_def)
  ultimately show ?thesis by (simp add: relay_inv_def)
qed

lemma onEnd_body_inv:
  assumes "relay_inv s" and q: "(r, q) \<in> set (receiving s)"
  shows "relay_inv
     (s\<lparr>timeouts := timeouts s @
          [(next_timer s, \<lparr>t_delay = REQUEST_TIMEOUT, t_requestId = rid, t_res = r\<rparr>)],
        next_timer := Suc (next_timer s),
        pendingResponses :=
          AList.update rid \<lparr>res = r, timer = next_timer s\<rparr> (pendingResponses s),
        receiving := AList.delete r (receiving s)\<rparr>)"
proof -
  let ?a = "(next_timer s, \<lparr>t_delay = REQUEST_TIMEOUT, t_requestId = rid, t_res = r\<rparr>)"
  let ?s' = "s\<lparr>timeouts := timeouts s @ [?a],
        next_timer := Suc (next_timer s),
        pendingResponses :=
          AList.update rid \<lparr>res = r, timer = next_timer s\<rparr> (pendingResponses s),
        receiving := AList.delete r (receiving s)\<rparr>"
  from assms have T: "inv_tunnels s" and K: "inv_keys s" and B: "inv_bounds s"
    and P: "inv_pending s" and R: "inv_receiving s" and M: "inv_timers s"
    by (simp_all add: relay_inv_def)
  have dp: "distinct (map fst (pendingResponses s))" using K by (simp add: inv_keys_def)
  have rlt: "r < next_res s" using B q unfolding inv_bounds_def by fastforce
  have unwritten: "\<forall>w\<in>set (written s). fst w \<noteq> r"
    and untimed: "\<forall>a\<in>set (timeouts s). t_res (snd a) \<noteq> r"
    using R q unfolding inv_receiving_def by fastforce+
  have tfresh: "\<forall>a\<in>set (timeouts s). fst a \<noteq> next_timer s"
    using B unfolding inv_bounds_def by fastforce
  have "inv_tunnels ?s'" using T by (simp add: inv_tunnels_def)
  moreover have "inv_keys ?s'"
    using K tfresh
    by (auto simp add: inv_keys_def AList.distinct_update AList.distinct_delete)
  moreover have "inv_bounds ?s'"
    using B rlt by (auto simp add: inv_bounds_def set_delete less_Suc_eq)
  moreover have "inv_pending ?s'"
    unfolding inv_pending_def
  proof (intro ballI)
    fix x assume "x \<in> set (pendingResponses ?s')"
    then have x: "x = (rid, \<lparr>res = r, timer = next_timer s\<rparr>) \<or>
        (x \<in> set (pendingResponses s) \<and> fst x \<noteq> rid)"
      using dp by (auto simp add: set_update_distinct)
    then show "(timer (snd x),
         \<lparr>t_delay = REQUEST_TIMEOUT, t_requestId = fst x, t_res = res (snd x)\<rparr>)
          \<in> set (timeouts ?s') \<and>
        (\<forall>w\<in>set (written ?s'). fst w \<noteq> res (snd x)) \<and>
        (\<forall>q\<in>set (receiving ?s'). fst q \<noteq> res (snd x))"
    proof
      assume "x = (rid, \<lparr>res = r, timer = next_timer s\<rparr>)"
      then show ?thesis using unwritten by (auto simp add: set_delete)
    next
      assume "x \<in> set (pendingResponses s) \<and> fst x \<noteq> rid"
      then show ?thesis using P unfolding inv_pending_def by (auto simp add: set_delete)
    qed
  qed
  moreover have "inv_receiving ?s'"
    using R by (auto simp add: inv_receiving_def set_delete)
  moreover have "inv_timers ?s'"
    using M untimed unfolding inv_timers_def by auto
  ultimately show ?thesis by (simp add: relay_inv_def)
qed

lemma onEnd_inv: "relay_inv s \<Longrightarrow> relay_inv (onEnd r s)"
proof -
  assume inv: "relay_inv s"
  show ?thesis
  proof (cases "map_of (receiving s) r")
    case None
    then show ?thesis using inv by (simp add: onEnd_def)
  next
    case (Some q)
    then have "(r, q) \<in> set (receiving s)" by (rule map_of_SomeD)
    then have body: "relay_inv
       (s\<lparr>timeouts := timeouts s @
            [(next_timer s,
              \<lparr>t_delay = REQUEST_TIMEOUT, t_requestId = rc_requestId q, t_res = r\<rparr>)],
          next_timer := Suc (next_timer s),
          pendingResponses :=
            AList.update (rc_requestId q) \<lparr>res = r, timer = next_timer s\<rparr> (pendingResponses s),
          receiving := AList.delete r (receiving s)\<rparr>)"
      by (rule onEnd_body_inv [OF inv])
    show ?thesis
      by (rule iffD1 [OF relay_inv_cong body])
         (simp_all add: onEnd_def relay_send_def Let_def Some)
  qed
qed


lemma timer_pending_key:
  assumes P: "inv_pending s" and K: "inv_keys s" and M: "inv_timers s"
    and a: "(t, a) \<in> set (timeouts s)" and x: "x \<in> set (pendingResponses s)"
    and hit: "timer (snd x) = t \<or> res (snd x) = t_res a"
  shows "fst x = t_requestId a"
proof -
  let ?b = "(timer (snd x),
      \<lparr>t_delay = REQUEST_TIMEOUT, t_requestId = fst x, t_res = res (snd x)\<rparr>)"
  have b: "?b \<in> set (timeouts s)" using P x unfolding inv_pending_def by blast
  have dt: "distinct (map fst (timeouts s))" using K by (simp add: inv_keys_def)
  from hit have "?b = (t, a)"
  proof
    assume "timer (snd x) = t"
    then show ?thesis using eq_key_imp_eq_value [OF dt _ a, of "snd ?b"] b by simp
  next
    assume "res (snd x) = t_res a"
    then have "t_res (snd ?b) = t_res (snd (t, a))" by simp
    then show ?thesis using M a b unfolding inv_timers_def by blast
  qed
  then have "t_requestId (snd ?b) = t_requestId a" by simp
  then show ?thesis by simp
qed

lemma onTimeout_inv: "relay_inv s \<Longrightarrow> relay_inv (onTimeout t s)"
proof -
  assume inv: "relay_inv s"
  from inv have T: "inv_tunnels s" and K: "inv_keys s" and B: "inv_bounds s"
    and P: "inv_pending s" and R: "inv_receiving s" and M: "inv_timers s"
    by (simp_all add: relay_inv_def)
  show ?thesis
  proof (cases "map_of (timeouts s) t")
    case None
    then show ?thesis using inv by (simp add: onTimeout_def)
  next
    case (Some a)
    then have a: "(t, a) \<in> set (timeouts s)" by (rule map_of_SomeD)
    let ?rep = "Reply 504 [(''Content-Type'', ''text/plain'')] (Some ''Gateway Timeout'')"
    let ?ws = "if t_res a \<in> fst ` set (written s) then written s
               else written s @ [(t_res a, ?rep)]"
    let ?s' = "s\<lparr>timeouts := AList.delete t (timeouts s),
                 pendingResponses := AList.delete (t_requestId a) (pendingResponses s),
                 written := ?ws\<rparr>"
    have eq: "onTimeout t s = ?s'"
      using Some by (simp add: onTimeout_def headersSent_def res_write_def Let_def)
    have dt: "distinct (map fst (timeouts s))" using K by (simp add: inv_keys_def)
    have alt: "t_res a < next_res s" using B a unfolding inv_bounds_def by fastforce
    have ws: "set ?ws \<subseteq> insert (t_res a, ?rep) (set (written s))" by auto
    have "inv_tunnels ?s'" using T by (simp add: inv_tunnels_def)
    moreover have "inv_keys ?s'"
      using K by (auto simp add: inv_keys_def AList.distinct_delete)
    moreover have "inv_bounds ?s'"
      using B alt by (auto simp add: inv_bounds_def set_delete)
    moreover have "inv_pending ?s'"
      unfolding inv_pending_def
    proof (intro ballI)
      fix x assume "x \<in> set (pendingResponses ?s')"
      then have x: "x \<in> set (pendingResponses s)" and ne: "fst x \<noteq> t_requestId a"
        by (simp_all add: set_delete)
      have "timer (snd x) \<noteq> t" "res (snd x) \<noteq> t_res a"
        using timer_pending_key [OF P K M a x] ne by auto
      then show "(timer (snd x),
           \<lparr>t_delay = REQUEST_TIMEOUT, t_requestId = fst x, t_res = res (snd x)\<rparr>)
            \<in> set (timeouts ?s') \<and>
          (\<forall>w\<in>set (written ?s'). fst w \<noteq> res (snd x)) \<and>
          (\<forall>q\<in>set (receiving ?s'). fst q \<noteq> res (snd x))"
        using P x unfolding inv_pending_def by (auto simp add: set_delete)
    qed
    moreover have "inv_receiving ?s'"
    proof -
      have "\<forall>q\<in>set (receiving s). fst q \<noteq> t_res a"
        using R a unfolding inv_receiving_def by fastforce
      then show ?thesis
        using R by (auto simp add: inv_receiving_def set_delete split: if_splits)
    qed
    moreover have "inv_timers ?s'"
      using M by (auto simp add: inv_timers_def set_delete)
    ultimately show ?thesis by (simp add: relay_inv_def eq)
  qed
qed

lemma onMessage_inv:
  assumes inv: "relay_inv s" and wf: "wf_event (Message w f bytes)"
  shows "relay_inv (onMessage cfg w f bytes s)"
proof (cases f)
  case (Parsed m)
  show ?thesis
  proof (cases m)
    case (Init lp)
    then show ?thesis using inv wf Parsed by (simp add: handleInit_inv)
  next
    case (Response rid st hs body)
    show ?thesis
      using handleResponse_inv [OF inv, of cfg rid st hs body] Parsed Response
      by (cases "handleResponse cfg rid st hs body s") (simp_all add: ws_close_inv)
  next
    case Pong
    then show ?thesis using inv Parsed by simp
  qed
qed (simp_all add: inv ws_close_inv)

lemma relay_step_inv: "relay_inv s \<Longrightarrow> wf_event e \<Longrightarrow> relay_inv (relay_step cfg e s)"
  by (cases e)
     (simp_all add: onConnection_inv onMessage_inv onClose_inv onPingTimer_inv httpServer_inv
        onData_inv onEnd_inv onTimeout_inv)

lemma reachable_inv: "reachable cfg s \<Longrightarrow> relay_inv s"
  by (induction rule: reachable.induct) (simp_all add: relay0_inv relay_step_inv)

lemma reachable_run:
  "reachable cfg s \<Longrightarrow> list_all wf_event evs \<Longrightarrow> reachable cfg (relay_run cfg evs s)"
proof (induction evs arbitrary: s)
  case Nil
  then show ?case by (simp add: relay_run_def)
next
  case (Cons e evs)
  then have "reachable cfg (relay_step cfg e s)" by (simp add: reachable_step)
  then have "reachable cfg (relay_run cfg evs (relay_step cfg e s))"
    using Cons by simp
  then show ?case by (simp add: relay_run_def)
qed

subsection \<open>Responses to public callers\<close>

lemma replies_Nil_iff: "replies s r = [] \<longleftrightarrow> (\<forall>w\<in>set (written s). fst w \<noteq> r)"
  by (auto simp add: replies_def filter_empty_conv)

lemma length_filter_key:
  "distinct (map fst xs) \<Longrightarrow> length (filter (\<lambda>e. fst e = r) xs) \<le> 1"
proof (induction xs)
  case Nil
  then show ?case by simp
next
  case (Cons x xs)
  show ?case
  proof (cases "fst x = r")
    case True
    have "fst x \<notin> fst ` set xs" using Cons.prems by simp
    then have "\<forall>e\<in>set xs. fst e \<noteq> r" using True by blast
    then have "filter (\<lambda>e. fst e = r) xs = []"
      by (simp add: filter_empty_conv)
    then show ?thesis using True by simp
  next
    case False
    then show ?thesis using Cons by simp
  qed
qed

lemma replies_at_most_one: "inv_keys s \<Longrightarrow> length (replies s r) \<le> 1"
  using length_filter_key [of "written s" r] by (simp add: replies_def inv_keys_def)

text \<open>No public caller is ever sent two replies.\<close>

lemma reachable_at_most_one_reply: "reachable cfg s \<Longrightarrow> length (replies s r) \<le> 1"
  using reachable_inv [of cfg s] replies_at_most_one [of s r] by (simp add: relay_inv_def)

text \<open>
  C9. In every reachable state, a public request without a \<open>Host\<close> header is handled:
  the identifier is the empty string, which is no tunnel's identifier, so a request for a
  path other than \<open>/_health\<close> is answered 404; and a request for \<open>/_health\<close> is answered
  200 with the health object, whatever its headers.
\<close>

theorem no_host_header_404:
  "reachable cfg s \<Longrightarrow> map_of (req_headers req) ''host'' = None \<Longrightarrow>
   extract_subdomain (host_of req) = [] \<and>
   map_of (tunnels s) [] = None \<and>
   (req_url req \<noteq> ''/_health'' \<longrightarrow>
      httpServer req now rnd s =
        s\<lparr>written := written s @
             [(next_res s, Reply 404 [(''Content-Type'', ''text/plain'')]
                 (Some (''Tunnel not found: '' @ [CHR 0x0A, CHR 0x0A] @ ''Active tunnels: '' @
                        show_nat (length (tunnels s)))))],
           next_res := Suc (next_res s)\<rparr>) \<and>
   (req_url req' = ''/_health'' \<longrightarrow>
      httpServer req' now rnd s =
        s\<lparr>written := written s @
             [(next_res s, Reply 200 [(''Content-Type'', ''application/json'')]
                 (Some (health_body (length (tunnels s)) (length (pendingResponses s)))))],
           next_res := Suc (next_res s)\<rparr>)"
proof -
  assume r: "reachable cfg s" and h: "map_of (req_headers req) ''host'' = None"
  have "inv_tunnels s" using reachable_inv [OF r] by (simp add: relay_inv_def)
  then have "\<forall>e\<in>set (tunnels s). fst e \<noteq> []" by (auto simp add: inv_tunnels_def)
  then have none: "map_of (tunnels s) [] = None"
    by (force simp add: map_of_eq_None_iff)
  have sd: "extract_subdomain (host_of req) = []"
    using h by (simp add: extract_subdomain_def host_of_def)
  show ?thesis
    using none sd
    by (simp add: httpServer_def res_write_def not_found_body_def Let_def)
qed

theorem no_host_header_404_witness:
  "(let s1 = relay_run default_config
               [Connection ''127.0.0.1'',
                Message 0 (Parsed (Init (Some 3000))) [0xa1, 0xb2, 0xc3, 0xd4, 0xe5, 0xf6]] relay0
    in written (httpServer \<lparr>req_method = ''GET'', req_url = ''/'', req_headers = []\<rparr>
                  1700000000000 ''0.5'' s1) =
         [(0, Reply 404 [(''Content-Type'', ''text/plain'')]
                (Some (''Tunnel not found: '' @ [CHR 0x0A, CHR 0x0A] @ ''Active tunnels: 1'')))] \<and>
       written (httpServer \<lparr>req_method = ''GET'', req_url = ''/_health'', req_headers = []\<rparr>
                  1700000000000 ''0.5'' s1) =
         [(0, Reply 200 [(''Content-Type'', ''application/json'')] (Some (health_body 1 0)))])"
proof -
  have r: "reachable default_config (relay_run default_config
               [Connection ''127.0.0.1'',
                Message 0 (Parsed (Init (Some 3000))) [0xa1, 0xb2, 0xc3, 0xd4, 0xe5, 0xf6]] relay0)"
    by (rule reachable_run [OF reachable_init]) simp
  show ?thesis
    using no_host_header_404 [OF r,
        where req = "\<lparr>req_method = ''GET'', req_url = ''/'', req_headers = []\<rparr>"
          and req' = "\<lparr>req_method = ''GET'', req_url = ''/_health'', req_headers = []\<rparr>"
          and now = 1700000000000 and rnd = "''0.5''"]
    by (simp add: relay_run_def relay0_def onConnection_def ready_of_def handleInit_def
        relay_send_def generateSubdomain_def hex_byte_def hex_digit_def default_config_def
        Let_def show_nat_small)
qed

lemma pending_unanswered:
  assumes "relay_inv s" and "map_of (pendingResponses s) rid = Some p"
  shows "replies s (res p) = []"
    and "map_of (timeouts s) (timer p) =
           Some \<lparr>t_delay = REQUEST_TIMEOUT, t_requestId = rid, t_res = res p\<rparr>"
proof -
  from assms have K: "inv_keys s" and P: "inv_pending s" by (simp_all add: relay_inv_def)
  have e: "(rid, p) \<in> set (pendingResponses s)" using assms(2) by (rule map_of_SomeD)
  then have "\<forall>w\<in>set (written s). fst w \<noteq> res p"
    using P unfolding inv_pending_def by fastforce
  then show "replies s (res p) = []" by (simp add: replies_Nil_iff)
  have "distinct (map fst (timeouts s))" using K by (simp add: inv_keys_def)
  then show "map_of (timeouts s) (timer p) =
           Some \<lparr>t_delay = REQUEST_TIMEOUT, t_requestId = rid, t_res = res p\<rparr>"
    using pending_timer_entry [OF P e] by simp
qed

text \<open>
  C6, as the code has it. In every reachable state, when the pending table holds an entry
  for the correlation id of a \<open>response\<close> message (the request was forwarded, and neither
  its timeout nor an earlier response has removed the entry) and the library takes the
  message's status, headers and body, the relay writes exactly these to that entry's public
  caller, and that is the only reply the caller is sent.
\<close>

theorem response_delivered_exactly:
  "reachable cfg s \<Longrightarrow> map_of (pendingResponses s) rid = Some p \<Longrightarrow> ready_of s w \<noteq> CLOSED \<Longrightarrow>
   accepts cfg st hs body \<Longrightarrow>
   written (relay_step cfg (Message w (Parsed (Response rid st hs body)) bytes) s) =
     written s @ [(res p, Reply st hs body)] \<and>
   replies (relay_step cfg (Message w (Parsed (Response rid st hs body)) bytes) s) (res p) =
     [Reply st hs body]"
proof -
  assume r: "reachable cfg s" and p: "map_of (pendingResponses s) rid = Some p"
    and w: "ready_of s w \<noteq> CLOSED" and acc: "accepts cfg st hs body"
  have "replies s (res p) = []" using pending_unanswered(1) [OF reachable_inv [OF r] p] .
  then show ?thesis
    using p w acc by (simp add: handleResponse_def replies_def res_write_def)
qed

theorem response_delivered_exactly_witness:
  "written (relay_run default_config
      [Connection ''127.0.0.1'',
       Message 0 (Parsed (Init (Some 3000))) [0xa1, 0xb2, 0xc3, 0xd4, 0xe5, 0xf6],
       HttpRequest \<lparr>req_method = ''GET'', req_url = ''/'',
         req_headers = [(''host'', ''a1b2c3d4e5f6.tunnel.localhost:8081'')]\<rparr>
         1700000000000 ''0.5'',
       HttpEnd 0,
       Message 0 (Parsed (Response ''127.0.0.1-1700000000000-0.5'' 200
          [(''content-type'', ''text/plain'')] (Some ''hello''))) []] relay0) =
     [(0, Reply 200 [(''content-type'', ''text/plain'')] (Some ''hello''))]"
proof -
  let ?evs = "[Connection ''127.0.0.1'',
       Message 0 (Parsed (Init (Some 3000))) [0xa1, 0xb2, 0xc3, 0xd4, 0xe5, 0xf6],
       HttpRequest \<lparr>req_method = ''GET'', req_url = ''/'',
         req_headers = [(''host'', ''a1b2c3d4e5f6.tunnel.localhost:8081'')]\<rparr>
         1700000000000 ''0.5'',
       HttpEnd 0]"
  have r: "reachable default_config (relay_run default_config ?evs relay0)"
    by (rule reachable_run [OF reachable_init]) simp
  have p: "map_of (pendingResponses (relay_run default_config ?evs relay0))
      ''127.0.0.1-1700000000000-0.5'' = Some \<lparr>res = 0, timer = 1\<rparr>"
    by (simp add: relay_defs Let_def show_nat_now)
  have w: "ready_of (relay_run default_config ?evs relay0) 0 \<noteq> CLOSED"
    by (simp add: relay_defs Let_def show_nat_now)
  have acc: "accepts default_config 200 [(''content-type'', ''text/plain'')] (Some ''hello'')"
    by (simp add: default_config_def node_accepts_def valid_header_name_def
        valid_header_value_def token_char_def)
  have run: "relay_run default_config (?evs @ [e]) relay0 =
      relay_step default_config e (relay_run default_config ?evs relay0)" for e
    by (simp only: relay_run_def foldl_append foldl.simps)
  have wr: "written (relay_run default_config ?evs relay0) = []"
    by (simp add: relay_defs Let_def show_nat_now)
  show ?thesis
    using response_delivered_exactly [OF r p w acc, of "[]"] run wr
    by simp
qed

text \<open>
  C6 as stated covers every response to a forwarded request. A \<open>response\<close> with status 99
  arrives for the pending request: the library refuses the status, so nothing is written to
  the caller, neither the message's status, headers and body nor anything else.
\<close>

theorem refused_response_counterexample:
  "(let s = relay_run default_config
              [Connection ''127.0.0.1'',
               Message 0 (Parsed (Init (Some 3000))) [0xa1, 0xb2, 0xc3, 0xd4, 0xe5, 0xf6],
               HttpRequest \<lparr>req_method = ''GET'', req_url = ''/'',
                 req_headers = [(''host'', ''a1b2c3d4e5f6.tunnel.localhost:8081'')]\<rparr>
                 1700000000000 ''0.5'',
               HttpEnd 0] relay0;
        s' = relay_step default_config
               (Message 0 (Parsed (Response ''127.0.0.1-1700000000000-0.5'' 99 [] None)) []) s
    in pendingResponses s = [(''127.0.0.1-1700000000000-0.5'', \<lparr>res = 0, timer = 1\<rparr>)] \<and>
       ready_of s 0 = OPEN \<and>
       written s' = [] \<and>
       replies s' 0 = [])"
  by (simp add: relay_defs replies_def Let_def show_nat_now)

subsection \<open>A caller left without a reply\<close>

lemma set_update_subset: "set (AList.update k v xs) \<subseteq> insert (k, v) (set xs)"
  by (induction xs) auto

lemma abandoned_cong:
  "pendingResponses x = pendingResponses y \<Longrightarrow> timeouts x = timeouts y \<Longrightarrow>
   receiving x = receiving y \<Longrightarrow> written x = written y \<Longrightarrow> next_res x = next_res y \<Longrightarrow>
   abandoned r x = abandoned r y"
  by (simp add: abandoned_def)

lemma handleResponse_abandoned:
  assumes ab: "abandoned r s"
  shows "case handleResponse cfg rid st hs body s of
           Returned s' \<Rightarrow> abandoned r s' | Threw s' \<Rightarrow> abandoned r s'"
proof (cases "map_of (pendingResponses s) rid")
  case None
  then show ?thesis using ab by (simp add: handleResponse_def)
next
  case (Some p)
  then have "(rid, p) \<in> set (pendingResponses s)" by (rule map_of_SomeD)
  then have "res p \<noteq> r" using ab unfolding abandoned_def by fastforce
  then show ?thesis
    using ab Some
    by (auto simp add: abandoned_def handleResponse_def res_write_def set_delete Let_def)
qed

lemma failPending_abandoned:
  "abandoned r s \<Longrightarrow> \<forall>e\<in>set es. res (snd e) \<noteq> r \<Longrightarrow> abandoned r (failPending sd es s)"
proof (induction es arbitrary: s)
  case Nil
  then show ?case by simp
next
  case (Cons x es)
  obtain rid p where x: "x = (rid, p)" by (cases x)
  have ne: "res p \<noteq> r" using Cons.prems(2) x by simp
  let ?s' = "(res_write (res p) (Reply 502 [(''Content-Type'', ''text/plain'')]
                (Some ''Tunnel disconnected'')) s)
               \<lparr>pendingResponses := AList.delete rid (pendingResponses s)\<rparr>"
  have "abandoned r ?s'"
    using Cons.prems(1) ne by (auto simp add: abandoned_def res_write_def set_delete)
  then have "abandoned r (failPending sd es ?s')" using Cons by simp
  moreover have "abandoned r (failPending sd es s)" using Cons by simp
  ultimately show ?case using x by simp
qed

lemma onClose_abandoned: "abandoned r s \<Longrightarrow> abandoned r (onClose w s)"
proof -
  assume ab: "abandoned r s"
  have frame: "abandoned r x \<Longrightarrow> abandoned r (x\<lparr>sessions := ss\<rparr>)"
    "abandoned r x \<Longrightarrow> abandoned r (x\<lparr>intervals := is\<rparr>)"
    "abandoned r x \<Longrightarrow> abandoned r (x\<lparr>tunnels := ts\<rparr>)" for x ss "is" ts
    by (simp_all add: abandoned_def)
  have others: "\<forall>e\<in>set (pendingResponses s). res (snd e) \<noteq> r"
    using ab by (simp add: abandoned_def)
  have loop: "abandoned r (failPending sd (pendingResponses s)
      (s\<lparr>sessions := ss, tunnels := ts\<rparr>))" for sd ss ts
    using failPending_abandoned [of r "s\<lparr>sessions := ss, tunnels := ts\<rparr>"
        "pendingResponses s" sd] frame(3) [OF frame(1) [OF ab, of ss], of ts] others
    by simp
  show ?thesis
    using ab loop frame
    by (simp add: onClose_def Let_def split: option.splits)
qed

lemma httpServer_abandoned: "abandoned r s \<Longrightarrow> abandoned r (httpServer req now rnd s)"
  by (auto simp add: abandoned_def httpServer_def forwardRequest_def res_write_def Let_def
      split: option.splits)

lemma onData_abandoned: "abandoned r s \<Longrightarrow> abandoned r (onData k chunk s)"
proof -
  assume ab: "abandoned r s"
  let ?rc = "AList.map_entry k (\<lambda>q. q\<lparr>rc_body := rc_body q @ chunk\<rparr>) (receiving s)"
  have "fst ` set ?rc = fst ` set (receiving s)" by (rule AList.dom_map_entry)
  moreover have "r \<notin> fst ` set (receiving s)" using ab unfolding abandoned_def by force
  ultimately have "\<forall>q\<in>set ?rc. fst q \<noteq> r" by force
  then show ?thesis using ab by (simp add: abandoned_def onData_def)
qed

lemma onEnd_abandoned: "abandoned r s \<Longrightarrow> abandoned r (onEnd k s)"
proof (cases "map_of (receiving s) k")
  case None
  assume "abandoned r s"
  then show ?thesis using None by (simp add: onEnd_def)
next
  case (Some q)
  assume ab: "abandoned r s"
  have "(k, q) \<in> set (receiving s)" using Some by (rule map_of_SomeD)
  then have ne: "k \<noteq> r" using ab unfolding abandoned_def by fastforce
  have "\<forall>e\<in>set (AList.update (rc_requestId q) \<lparr>res = k, timer = next_timer s\<rparr>
        (pendingResponses s)). res (snd e) \<noteq> r"
    using set_update_subset [of "rc_requestId q" "\<lparr>res = k, timer = next_timer s\<rparr>"
        "pendingResponses s"] ab ne
    unfolding abandoned_def by fastforce
  then show ?thesis
    using ab ne Some
    by (auto simp add: abandoned_def onEnd_def relay_send_def Let_def set_delete)
qed

lemma onTimeout_abandoned: "abandoned r s \<Longrightarrow> abandoned r (onTimeout t s)"
proof (cases "map_of (timeouts s) t")
  case None
  assume "abandoned r s"
  then show ?thesis using None by (simp add: onTimeout_def)
next
  case (Some a)
  assume ab: "abandoned r s"
  have "(t, a) \<in> set (timeouts s)" using Some by (rule map_of_SomeD)
  then have ne: "t_res a \<noteq> r" using ab unfolding abandoned_def by fastforce
  then show ?thesis
    using ab Some
    by (auto simp add: abandoned_def onTimeout_def res_write_def headersSent_def Let_def
        set_delete)
qed

lemma relay_step_abandoned: "abandoned r s \<Longrightarrow> abandoned r (relay_step cfg e s)"
proof (cases e)
  case (Message w f bytes)
  assume ab: "abandoned r s"
  have frame: "abandoned r x \<Longrightarrow> abandoned r (ws_close w x)" for x
    by (simp add: abandoned_def ws_close_def)
  have "abandoned r (onMessage cfg w f bytes s)"
  proof (cases f)
    case (Parsed m)
    show ?thesis
    proof (cases m)
      case (Init lp)
      then show ?thesis using ab Parsed
        by (simp add: abandoned_def handleInit_def relay_send_def Let_def)
    next
      case (Response rid st hs body)
      show ?thesis
        using handleResponse_abandoned [OF ab, of cfg rid st hs body] Parsed Response frame
        by (cases "handleResponse cfg rid st hs body s") simp_all
    next
      case Pong
      then show ?thesis using ab Parsed by simp
    qed
  qed (simp_all add: ab frame)
  then show ?thesis using ab Message by simp
next
  case (Connection addr)
  assume "abandoned r s"
  then show ?thesis using Connection by (simp add: abandoned_def onConnection_def)
next
  case (PingTimer i)
  assume "abandoned r s"
  then show ?thesis using PingTimer
    by (simp add: abandoned_def onPingTimer_def relay_send_def split: option.splits)
qed (simp_all add: onClose_abandoned httpServer_abandoned onData_abandoned onEnd_abandoned
      onTimeout_abandoned)

lemma relay_run_abandoned: "abandoned r s \<Longrightarrow> abandoned r (relay_run cfg evs s)"
proof (induction evs arbitrary: s)
  case Nil
  then show ?case by (simp add: relay_run_def)
next
  case (Cons e evs)
  have "abandoned r (relay_step cfg e s)" using Cons.prems by (rule relay_step_abandoned)
  then have "abandoned r (relay_run cfg evs (relay_step cfg e s))" by (rule Cons.IH)
  then show ?case by (simp add: relay_run_def)
qed

text \<open>
  C2 on the code. \<open>handleResponse\<close> clears the timer and deletes the pending entry before
  it writes the reply. A tunnel has one request forwarded and pending, with its timeout
  armed, when a \<open>response\<close> for it arrives with status 99: the library refuses the status,
  the exception leaves the handler with the entry deleted and the timer cleared, and the
  \<open>catch\<close> block closes the channel without answering the caller. Nothing in the state
  refers to the caller any more, so whatever events follow, it is sent no reply: not the
  response, not a 502 when the channel closes, not a 504.
\<close>

theorem refused_response_leaves_caller_unanswered:
  "(let s = relay_run default_config
              [Connection ''127.0.0.1'',
               Message 0 (Parsed (Init (Some 3000))) [0xa1, 0xb2, 0xc3, 0xd4, 0xe5, 0xf6],
               HttpRequest \<lparr>req_method = ''GET'', req_url = ''/'',
                 req_headers = [(''host'', ''a1b2c3d4e5f6.tunnel.localhost:8081'')]\<rparr>
                 1700000000000 ''0.5'',
               HttpEnd 0] relay0;
        s' = relay_step default_config
               (Message 0 (Parsed (Response ''127.0.0.1-1700000000000-0.5'' 99 [] None)) []) s
    in pendingResponses s = [(''127.0.0.1-1700000000000-0.5'', \<lparr>res = 0, timer = 1\<rparr>)] \<and>
       timeouts s =
         [(1, \<lparr>t_delay = 30000, t_requestId = ''127.0.0.1-1700000000000-0.5'', t_res = 0\<rparr>)] \<and>
       written s = [] \<and>
       pendingResponses s' = [] \<and>
       timeouts s' = [] \<and>
       written s' = [] \<and>
       ready_of s' 0 = CLOSING \<and>
       written (relay_step default_config (Close 0) s') = [] \<and>
       (\<forall>evs. replies (relay_run default_config evs s') 0 = []))"
proof -
  let ?s = "relay_run default_config
              [Connection ''127.0.0.1'',
               Message 0 (Parsed (Init (Some 3000))) [0xa1, 0xb2, 0xc3, 0xd4, 0xe5, 0xf6],
               HttpRequest \<lparr>req_method = ''GET'', req_url = ''/'',
                 req_headers = [(''host'', ''a1b2c3d4e5f6.tunnel.localhost:8081'')]\<rparr>
                 1700000000000 ''0.5'',
               HttpEnd 0] relay0"
  let ?s' = "relay_step default_config
               (Message 0 (Parsed (Response ''127.0.0.1-1700000000000-0.5'' 99 [] None)) []) ?s"
  have before: "pendingResponses ?s = [(''127.0.0.1-1700000000000-0.5'', \<lparr>res = 0, timer = 1\<rparr>)]"
    "timeouts ?s =
       [(1, \<lparr>t_delay = 30000, t_requestId = ''127.0.0.1-1700000000000-0.5'', t_res = 0\<rparr>)]"
    "written ?s = []"
    by (simp_all add: relay_defs Let_def show_nat_now)
  have after: "pendingResponses ?s' = []" "timeouts ?s' = []" "written ?s' = []"
    "receiving ?s' = []" "next_res ?s' = 1" "ready_of ?s' 0 = CLOSING"
    by (simp_all add: relay_defs Let_def show_nat_now)
  have closed: "written (relay_step default_config (Close 0) ?s') = []"
    by (simp add: relay_defs Let_def show_nat_now)
  have "abandoned 0 ?s'" unfolding abandoned_def by (simp only: after) simp
  then have "abandoned 0 (relay_run default_config evs ?s')" for evs
    by (rule relay_run_abandoned)
  then have never: "\<forall>evs. replies (relay_run default_config evs ?s') 0 = []"
    by (simp add: abandoned_def replies_def filter_empty_conv)
  show ?thesis
    unfolding Let_def using before after closed never by blast
qed

end
